theory Spec2Isabelle
  imports Complex_Main
begin

section \<open>Python values used by the pipeline\<close>

text \<open>
  A Python \<open>str\<close> is modelled as a \<open>string\<close>; one \<open>char\<close> stands for one code point
  below 256. \<open>is_space\<close> lists the code points below 256 for which \<open>str.isspace()\<close> holds;
  \<open>str.split()\<close> without arguments and \<open>str.strip()\<close> both use that class.
\<close>

definition is_space :: "char \<Rightarrow> bool" where
  "is_space c \<longleftrightarrow> c \<in> {CHR 0x09, CHR 0x0A, CHR 0x0B, CHR 0x0C, CHR 0x0D,
                        CHR 0x1C, CHR 0x1D, CHR 0x1E, CHR 0x1F, CHR 0x20, CHR 0x85, CHR 0xA0}"

text \<open>
  \<open>text.split()\<close>: runs of whitespace separate the words, and no empty word is produced.
  \<open>split_from w s\<close> scans \<open>s\<close> with the word \<open>w\<close> collected so far.
\<close>

fun split_from :: "string \<Rightarrow> string \<Rightarrow> string list" where
  "split_from w [] = (if w = [] then [] else [w])"
| "split_from w (c # cs) =
     (if is_space c then (if w = [] then split_from [] cs else w # split_from [] cs)
      else split_from (w @ [c]) cs)"

definition py_split :: "string \<Rightarrow> string list" where
  "py_split s = split_from [] s"

text \<open>\<open>sep.join(ws)\<close>\<close>

fun py_join :: "string \<Rightarrow> string list \<Rightarrow> string" where
  "py_join sep [] = []"
| "py_join sep [w] = w"
| "py_join sep (w # v # ws) = w @ sep @ py_join sep (v # ws)"

text \<open>\<open>s.strip()\<close>\<close>

definition py_strip :: "string \<Rightarrow> string" where
  "py_strip s = rev (dropWhile is_space (rev (dropWhile is_space s)))"

text \<open>
  Exceptions are values. Every exception the pipeline meets is a subclass of \<open>Exception\<close>;
  \<open>LibraryError\<close> stands for whatever an external library or service call raises, with
  its message.
\<close>

datatype exc = FileNotFoundError string | ValueError string | LibraryError string

fun str_exc :: "exc \<Rightarrow> string" where
  "str_exc (FileNotFoundError m) = m"
| "str_exc (ValueError m) = m"
| "str_exc (LibraryError m) = m"

text \<open>
  \<open>range(start, stop, step)\<close> as the list of values the \<open>for\<close> loop visits. A zero
  step raises \<open>ValueError\<close>.
\<close>

function range_from :: "int \<Rightarrow> int \<Rightarrow> int \<Rightarrow> int list" where
  "range_from i stop step =
     (if (0 < step \<and> i < stop) \<or> (step < 0 \<and> stop < i)
      then i # range_from (i + step) stop step else [])"
  by pat_completeness auto
termination
  by (relation "measure (\<lambda>(i, stop, step). nat (if 0 < step then stop - i else i - stop))")
     auto

declare range_from.simps [simp del]

definition py_range :: "int \<Rightarrow> int \<Rightarrow> int \<Rightarrow> exc + int list" where
  "py_range start stop step =
     (if step = 0 then Inl (ValueError ''range() arg 3 must not be zero'')
      else Inr (range_from start stop step))"

text \<open>
  \<open>xs[i:j]\<close>: a negative index counts from the end, and both bounds are clamped to the
  list.
\<close>

definition slice_index :: "nat \<Rightarrow> int \<Rightarrow> int" where
  "slice_index n k = (if k < 0 then max (k + int n) 0 else min k (int n))"

definition py_slice :: "'a list \<Rightarrow> int \<Rightarrow> int \<Rightarrow> 'a list" where
  "py_slice xs i j =
     (let lo = slice_index (length xs) i; hi = slice_index (length xs) j
      in take (nat (hi - lo)) (drop (nat lo) xs))"

section \<open>document\_parser.py\<close>

record DocumentParser =
  chunk_size :: int
  chunk_overlap :: int

text \<open>
  \<open>DocumentParser.__init__\<close> stores its two arguments and checks nothing. The result type
  has the error branch a constructor could take.
\<close>

definition DocumentParser_init :: "int \<Rightarrow> int \<Rightarrow> exc + DocumentParser" where
  "DocumentParser_init csize coverlap =
     Inr \<lparr>chunk_size = csize, chunk_overlap = coverlap\<rparr>"

text \<open>\<open>DocumentParser._chunk_text\<close>\<close>

definition chunk_text :: "DocumentParser \<Rightarrow> string \<Rightarrow> exc + string list" where
  "chunk_text self text =
     (let words = py_split text in
      case py_range 0 (int (length words)) (chunk_size self - chunk_overlap self) of
        Inl e \<Rightarrow> Inl e
      | Inr is \<Rightarrow>
          Inr (map (\<lambda>i. py_join '' '' (py_slice words i (i + chunk_size self))) is))"

text \<open>
  The values stored in metadata dictionaries and in reports: strings, integers and
  booleans. A dictionary is an association list in insertion order; \<open>dict_get\<close> is
  \<open>d.get(k, default)\<close> and \<open>dict_set\<close> is \<open>d[k] = v\<close>.
\<close>

datatype pyval = PStr string | PInt int | PBool bool

type_synonym pydict = "(string \<times> pyval) list"

definition dict_get :: "pydict \<Rightarrow> string \<Rightarrow> pyval \<Rightarrow> pyval" where
  "dict_get d k dflt = (case map_of d k of None \<Rightarrow> dflt | Some v \<Rightarrow> v)"

fun dict_set :: "pydict \<Rightarrow> string \<Rightarrow> pyval \<Rightarrow> pydict" where
  "dict_set [] k v = [(k, v)]"
| "dict_set ((k', v') # d) k v =
     (if k' = k then (k, v) # d else (k', v') # dict_set d k v)"

text \<open>\<open>str(n)\<close> for an integer, and the text an f-string puts for a value.\<close>

definition digit_char :: "nat \<Rightarrow> char" where
  "digit_char n = ''0123456789'' ! (n mod 10)"

function str_nat :: "nat \<Rightarrow> string" where
  "str_nat n = (if n < 10 then [digit_char n] else str_nat (n div 10) @ [digit_char n])"
  by pat_completeness auto
termination
  by (relation "measure id") auto

declare str_nat.simps [simp del]

definition str_int :: "int \<Rightarrow> string" where
  "str_int i = (if i < 0 then CHR ''-'' # str_nat (nat (- i)) else str_nat (nat i))"

fun py_format :: "pyval \<Rightarrow> string" where
  "py_format (PStr s) = s"
| "py_format (PInt i) = str_int i"
| "py_format (PBool b) = (if b then ''True'' else ''False'')"

text \<open>\<open>s.lower()\<close> on code points below 256, and \<open>s.replace('.', '')\<close>.\<close>

definition lower_char :: "char \<Rightarrow> char" where
  "lower_char c =
     (let n = (of_char c :: nat) in
      if (65 \<le> n \<and> n \<le> 90) \<or> (192 \<le> n \<and> n \<le> 214) \<or> (216 \<le> n \<and> n \<le> 222)
      then char_of (n + 32) else c)"

definition py_lower :: "string \<Rightarrow> string" where
  "py_lower s = map lower_char s"

definition remove_dots :: "string \<Rightarrow> string" where
  "remove_dots s = filter (\<lambda>c. c \<noteq> CHR ''.'') s"

definition nl :: string where
  "nl = [CHR 0x0A]"

subsection \<open>Chunks and the file system\<close>

record chunk =
  content :: string
  metadata :: pydict

text \<open>
  What the parser reads from outside is a parameter: \<open>path_str p\<close> is \<open>str(Path(p))\<close>,
  \<open>path_suffix p\<close> is \<open>Path(p).suffix\<close>, \<open>rglob_all d\<close> lists \<open>Path(d).rglob('*')\<close>,
  \<open>read_text\<close> is \<open>open(p, 'r', encoding='utf-8').read()\<close>, \<open>pdf_pages\<close> gives the text
  \<open>extract_text()\<close> returns for each page of \<open>PdfReader\<close>, \<open>docx_paragraphs\<close> the text of
  each paragraph of \<open>docx.Document\<close>, and \<open>unstructured_chunks p n\<close> the text and the
  category (when the element has one) of each element of
  \<open>chunk_by_title(partition(filename=p), max_characters=n)\<close>. Each reader either raises
  or returns. Log lines are not modelled.
\<close>

record file_system =
  path_str :: "string \<Rightarrow> string"
  path_exists :: "string \<Rightarrow> bool"
  path_is_file :: "string \<Rightarrow> bool"
  path_suffix :: "string \<Rightarrow> string"
  rglob_all :: "string \<Rightarrow> string list"
  read_text :: "string \<Rightarrow> exc + string"
  pdf_pages :: "string \<Rightarrow> exc + string list"
  docx_paragraphs :: "string \<Rightarrow> exc + string list"
  unstructured_chunks :: "string \<Rightarrow> int \<Rightarrow> exc + (string \<times> string option) list"

text \<open>\<open>DocumentParser._parse_pdf\<close>\<close>

definition parse_pdf :: "file_system \<Rightarrow> DocumentParser \<Rightarrow> string \<Rightarrow> exc + chunk list" where
  "parse_pdf fs self file_path =
     (case pdf_pages fs file_path of
        Inl e \<Rightarrow> Inl e
      | Inr pages \<Rightarrow>
          (let full_text =
                 foldl (\<lambda>acc (page_num, page_text).
                          acc @ nl @ ''--- Page '' @ str_int (int page_num + 1) @ '' ---'' @ nl
                              @ page_text)
                   [] (enumerate 0 pages)
           in case chunk_text self full_text of
                Inl e \<Rightarrow> Inl e
              | Inr text_chunks \<Rightarrow>
                  Inr (map (\<lambda>(i, c).
                         \<lparr>content = c,
                          metadata = [(''source'', PStr (path_str fs file_path)),
                                      (''chunk_id'', PInt (int i)),
                                      (''file_type'', PStr ''pdf''),
                                      (''total_pages'', PInt (int (length pages)))]\<rparr>)
                       (enumerate 0 text_chunks))))"

text \<open>\<open>DocumentParser._parse_docx\<close>\<close>

definition parse_docx :: "file_system \<Rightarrow> DocumentParser \<Rightarrow> string \<Rightarrow> exc + chunk list" where
  "parse_docx fs self file_path =
     (case docx_paragraphs fs file_path of
        Inl e \<Rightarrow> Inl e
      | Inr paragraphs \<Rightarrow>
          (let full_text = foldl (\<lambda>acc paragraph. acc @ paragraph @ nl) [] paragraphs
           in case chunk_text self full_text of
                Inl e \<Rightarrow> Inl e
              | Inr text_chunks \<Rightarrow>
                  Inr (map (\<lambda>(i, c).
                         \<lparr>content = c,
                          metadata = [(''source'', PStr (path_str fs file_path)),
                                      (''chunk_id'', PInt (int i)),
                                      (''file_type'', PStr ''docx''),
                                      (''total_paragraphs'', PInt (int (length paragraphs)))]\<rparr>)
                       (enumerate 0 text_chunks))))"

text \<open>\<open>DocumentParser._parse_txt\<close>\<close>

definition parse_txt :: "file_system \<Rightarrow> DocumentParser \<Rightarrow> string \<Rightarrow> exc + chunk list" where
  "parse_txt fs self file_path =
     (case read_text fs file_path of
        Inl e \<Rightarrow> Inl e
      | Inr full_text \<Rightarrow>
          (case chunk_text self full_text of
             Inl e \<Rightarrow> Inl e
           | Inr text_chunks \<Rightarrow>
               Inr (map (\<lambda>(i, c).
                      \<lparr>content = c,
                       metadata = [(''source'', PStr (path_str fs file_path)),
                                   (''chunk_id'', PInt (int i)),
                                   (''file_type'', PStr ''txt'')]\<rparr>)
                    (enumerate 0 text_chunks))))"

text \<open>\<open>DocumentParser._parse_with_unstructured\<close>\<close>

definition parse_with_unstructured ::
  "file_system \<Rightarrow> DocumentParser \<Rightarrow> string \<Rightarrow> exc + chunk list" where
  "parse_with_unstructured fs self file_path =
     (case unstructured_chunks fs (path_str fs file_path) (chunk_size self) of
        Inl e \<Rightarrow> Inl e
      | Inr chunked_elements \<Rightarrow>
          Inr (map (\<lambda>(i, (element_text, category)).
                 \<lparr>content = element_text,
                  metadata = [(''source'', PStr (path_str fs file_path)),
                              (''chunk_id'', PInt (int i)),
                              (''file_type'',
                                 PStr (remove_dots (py_lower (path_suffix fs file_path)))),
                              (''element_type'',
                                 PStr (case category of Some c \<Rightarrow> c | None \<Rightarrow> ''unknown''))]\<rparr>)
               (enumerate 0 chunked_elements)))"

text \<open>
  \<open>DocumentParser.parse_document\<close>. The \<open>try\<close> block logs and raises again, so the
  result of the chosen extractor is the result.
\<close>

definition parse_document :: "file_system \<Rightarrow> DocumentParser \<Rightarrow> string \<Rightarrow> exc + chunk list" where
  "parse_document fs self file_path =
     (if \<not> path_exists fs file_path
      then Inl (FileNotFoundError (''File not found: '' @ path_str fs file_path))
      else
        (let file_extension = py_lower (path_suffix fs file_path) in
         if file_extension = ''.pdf'' then parse_pdf fs self file_path
         else if file_extension \<in> set [''.docx'', ''.doc''] then parse_docx fs self file_path
         else if file_extension = ''.txt'' then parse_txt fs self file_path
         else parse_with_unstructured fs self file_path))"

text \<open>
  \<open>DocumentParser.parse_directory\<close>: the loop over \<open>rglob('*')\<close>, with the chunks
  collected so far; \<open>except Exception\<close> logs and goes on with the next file.
\<close>

definition default_extensions :: "string list" where
  "default_extensions = [''.pdf'', ''.docx'', ''.doc'', ''.txt'', ''.md'', ''.html'', ''.csv'']"

fun parse_directory_loop ::
  "file_system \<Rightarrow> DocumentParser \<Rightarrow> string list \<Rightarrow> string list \<Rightarrow> chunk list \<Rightarrow> exc + chunk list"
where
  "parse_directory_loop fs self file_extensions [] all_chunks = Inr all_chunks"
| "parse_directory_loop fs self file_extensions (file_path # rest) all_chunks =
     (if path_is_file fs file_path
         \<and> py_lower (path_suffix fs file_path) \<in> set file_extensions
      then (case parse_document fs self (path_str fs file_path) of
              Inr chunks \<Rightarrow>
                parse_directory_loop fs self file_extensions rest (all_chunks @ chunks)
            | Inl e \<Rightarrow> parse_directory_loop fs self file_extensions rest all_chunks)
      else parse_directory_loop fs self file_extensions rest all_chunks)"

definition parse_directory ::
  "file_system \<Rightarrow> DocumentParser \<Rightarrow> string \<Rightarrow> string list option \<Rightarrow> exc + chunk list" where
  "parse_directory fs self directory_path file_extensions =
     parse_directory_loop fs self
       (case file_extensions of None \<Rightarrow> default_extensions | Some es \<Rightarrow> es)
       (rglob_all fs directory_path) []"

section \<open>pinecone\_handler.py\<close>

text \<open>
  Floating-point numbers are only passed on, never computed with, so their type is left
  open. A vector is the dictionary with the keys \<open>id\<close>, \<open>values\<close> and \<open>metadata\<close>; a match
  is one entry of \<open>search_results['matches']\<close>.
\<close>

typedecl pyfloat

record vector =
  vector_id :: string
  vector_values :: "pyfloat list"
  vector_metadata :: pydict

record match =
  match_id :: string
  match_score :: pyfloat
  match_metadata :: pydict

text \<open>
  The embedding service, the vector index and the completion service are outside the
  program. Every call to one of them is recorded, with its arguments and its outcome, in
  the list of events; what a call does may depend on all the calls made before it, so each
  service is a function of the events so far and of the arguments. \<open>md5_hexdigest c\<close> is
  \<open>hashlib.md5(c.encode()).hexdigest()\<close> and \<open>format_score x\<close> is the text of
  \<open>f"{x:.3f}"\<close>.
\<close>

datatype event =
    EmbeddingCall string "exc + pyfloat list"
  | UpsertCall "vector list" "exc + unit"
  | QueryCall "pyfloat list" int "pydict option" "exc + match list"
  | CompletionCall "(string \<times> string) list" "exc + string"

record services =
  embeddings_create :: "event list \<Rightarrow> string \<Rightarrow> exc + pyfloat list"
  index_upsert :: "event list \<Rightarrow> vector list \<Rightarrow> exc + unit"
  index_query :: "event list \<Rightarrow> pyfloat list \<Rightarrow> int \<Rightarrow> pydict option \<Rightarrow> exc + match list"
  completions_create :: "event list \<Rightarrow> (string \<times> string) list \<Rightarrow> exc + string"
  md5_hexdigest :: "string \<Rightarrow> string"
  format_score :: "pyfloat \<Rightarrow> string"

text \<open>\<open>PineconeHandler._generate_embedding\<close>\<close>

definition generate_embedding ::
  "services \<Rightarrow> string \<Rightarrow> event list \<Rightarrow> (exc + pyfloat list) \<times> event list" where
  "generate_embedding svc text h =
     (let r = embeddings_create svc h text in (r, h @ [EmbeddingCall text r]))"

text \<open>\<open>PineconeHandler._generate_id\<close>\<close>

definition generate_id :: "services \<Rightarrow> string \<Rightarrow> pydict \<Rightarrow> string" where
  "generate_id svc content' metadata' =
     (let content_hash = md5_hexdigest svc content';
          source = dict_get metadata' ''source'' (PStr ''unknown'');
          chunk_id = dict_get metadata' ''chunk_id'' (PInt 0)
      in py_format source @ ''_'' @ py_format chunk_id @ ''_'' @ py_slice content_hash 0 8)"

text \<open>
  \<open>PineconeHandler.upsert_documents\<close>, first loop: the vectors built so far and the
  events so far. A chunk whose content is blank is passed over; a chunk whose embedding
  call raises is logged and passed over.
\<close>

fun build_vectors ::
  "services \<Rightarrow> chunk list \<Rightarrow> vector list \<Rightarrow> event list \<Rightarrow> vector list \<times> event list" where
  "build_vectors svc [] vectors h = (vectors, h)"
| "build_vectors svc (doc # documents) vectors h =
     (if py_strip (content doc) = [] then build_vectors svc documents vectors h
      else
        (case generate_embedding svc (content doc) h of
           (Inl e, h') \<Rightarrow> build_vectors svc documents vectors h'
         | (Inr embedding, h') \<Rightarrow>
             build_vectors svc documents
               (vectors @
                  [\<lparr>vector_id = generate_id svc (content doc) (metadata doc),
                    vector_values = embedding,
                    vector_metadata =
                      dict_set (metadata doc) ''content''
                        (PStr (py_slice (content doc) 0 1000))\<rparr>])
               h'))"

text \<open>
  Second loop: one store call for each batch start \<open>i\<close>, with the two counters and the
  events so far.
\<close>

fun upsert_batches ::
  "services \<Rightarrow> vector list \<Rightarrow> int \<Rightarrow> int list \<Rightarrow> int \<times> int \<Rightarrow> event list
     \<Rightarrow> (int \<times> int) \<times> event list" where
  "upsert_batches svc vectors batch_size [] counts h = (counts, h)"
| "upsert_batches svc vectors batch_size (i # is) (upserted_count, failed_count) h =
     (let batch = py_slice vectors i (i + batch_size);
          r = index_upsert svc h batch;
          h' = h @ [UpsertCall batch r]
      in case r of
           Inr u \<Rightarrow>
             upsert_batches svc vectors batch_size is
               (upserted_count + int (length batch), failed_count) h'
         | Inl e \<Rightarrow>
             upsert_batches svc vectors batch_size is
               (upserted_count, failed_count + int (length batch)) h')"

record upsert_report =
  upserted :: int
  failed :: int
  total :: int

definition upsert_documents ::
  "services \<Rightarrow> chunk list \<Rightarrow> int \<Rightarrow> event list \<Rightarrow> (exc + upsert_report) \<times> event list" where
  "upsert_documents svc documents batch_size h =
     (case build_vectors svc documents [] h of
        (vectors, h1) \<Rightarrow>
          (case py_range 0 (int (length vectors)) batch_size of
             Inl e \<Rightarrow> (Inl e, h1)
           | Inr is \<Rightarrow>
               (case upsert_batches svc vectors batch_size is (0, 0) h1 of
                  ((upserted_count, failed_count), h2) \<Rightarrow>
                    (Inr \<lparr>upserted = upserted_count, failed = failed_count,
                          total = int (length vectors)\<rparr>, h2))))"

text \<open>\<open>PineconeHandler.search\<close>\<close>

record search_result =
  result_content :: pyval
  result_score :: pyfloat
  result_metadata :: pydict
  result_id :: string

definition search ::
  "services \<Rightarrow> string \<Rightarrow> int \<Rightarrow> pydict option \<Rightarrow> event list
     \<Rightarrow> (exc + search_result list) \<times> event list" where
  "search svc query' top_k filter_dict h =
     (case generate_embedding svc query' h of
        (Inl e, h1) \<Rightarrow> (Inl e, h1)
      | (Inr query_embedding, h1) \<Rightarrow>
          (let r = index_query svc h1 query_embedding top_k filter_dict;
               h2 = h1 @ [QueryCall query_embedding top_k filter_dict r]
           in case r of
                Inl e \<Rightarrow> (Inl e, h2)
              | Inr matches \<Rightarrow>
                  (Inr (map (\<lambda>m. \<lparr>result_content =
                                     dict_get (match_metadata m) ''content'' (PStr ''''),
                                   result_score = match_score m,
                                   result_metadata = match_metadata m,
                                   result_id = match_id m\<rparr>) matches), h2)))"

section \<open>document\_processor.py\<close>

record DocumentProcessor =
  parser :: DocumentParser

text \<open>
  \<open>DocumentProcessor.process_single_file\<close>. The report is the dictionary the method
  returns; \<open>except Exception\<close> covers both the parsing and the upsert.
\<close>

definition process_single_file ::
  "file_system \<Rightarrow> services \<Rightarrow> DocumentProcessor \<Rightarrow> string \<Rightarrow> event list
     \<Rightarrow> pydict \<times> event list" where
  "process_single_file fs svc self file_path h =
     (case parse_document fs (parser self) file_path of
        Inl e \<Rightarrow>
          ([(''file_path'', PStr file_path), (''error'', PStr (str_exc e)),
            (''success'', PBool False)], h)
      | Inr chunks \<Rightarrow>
          (case upsert_documents svc chunks 100 h of
             (Inl e, h') \<Rightarrow>
               ([(''file_path'', PStr file_path), (''error'', PStr (str_exc e)),
                 (''success'', PBool False)], h')
           | (Inr result, h') \<Rightarrow>
               ([(''file_path'', PStr file_path),
                 (''chunks_parsed'', PInt (int (length chunks))),
                 (''vectors_upserted'', PInt (upserted result)),
                 (''vectors_failed'', PInt (failed result)),
                 (''success'', PBool True)], h')))"

text \<open>\<open>DocumentProcessor.search_documents\<close>\<close>

definition search_documents ::
  "services \<Rightarrow> string \<Rightarrow> int \<Rightarrow> string option \<Rightarrow> event list
     \<Rightarrow> (exc + search_result list) \<times> event list" where
  "search_documents svc query' top_k source_filter h =
     search svc query' top_k
       (case source_filter of
          None \<Rightarrow> None
        | Some s \<Rightarrow> if s = [] then None else Some [(''source'', PStr s)])
       h"

section \<open>rag\_chatbot.py\<close>

record RAGChatbot =
  max_context_chunks :: int
  system_prompt :: string

definition default_system_prompt :: string where
  "default_system_prompt =
     ''You are an expert assistant for Revenue Cycle Management (RCM) and Intracare policies. ''
     @ nl @ nl
     @ ''Use the provided context documents to answer questions accurately. If the context doesn't contain enough information to answer the question, say so clearly.''
     @ nl @ nl
     @ ''Always cite which document or section your answer comes from when possible.''
     @ nl @ nl
     @ ''Be helpful, professional, and concise in your responses.''"

definition RAGChatbot_init :: "int \<Rightarrow> RAGChatbot" where
  "RAGChatbot_init max_chunks =
     \<lparr>max_context_chunks = max_chunks, system_prompt = default_system_prompt\<rparr>"

text \<open>\<open>RAGChatbot.search_relevant_docs\<close>\<close>

definition search_relevant_docs ::
  "services \<Rightarrow> RAGChatbot \<Rightarrow> string \<Rightarrow> int option \<Rightarrow> event list
     \<Rightarrow> (exc + search_result list) \<times> event list" where
  "search_relevant_docs svc self query' top_k h =
     search_documents svc query'
       (case top_k of None \<Rightarrow> max_context_chunks self | Some k \<Rightarrow> k) None h"

text \<open>\<open>RAGChatbot.build_context\<close>\<close>

definition build_context :: "services \<Rightarrow> search_result list \<Rightarrow> string" where
  "build_context svc search_results =
     (if search_results = [] then ''No relevant documents found.''
      else py_join (nl @ nl @ ''---'' @ nl @ nl)
             (map (\<lambda>(i, result).
                     ''Document '' @ str_int (int i) @ '' (Score: ''
                       @ format_score svc (result_score result) @ '', Source: ''
                       @ py_format (dict_get (result_metadata result) ''source''
                                      (PStr ''Unknown source''))
                       @ ''):'' @ nl @ py_format (result_content result))
                (enumerate 1 search_results)))"

text \<open>
  \<open>RAGChatbot.generate_response\<close>: a completion call that raises gives the apology text.
\<close>

definition generate_response ::
  "services \<Rightarrow> RAGChatbot \<Rightarrow> string \<Rightarrow> string \<Rightarrow> event list \<Rightarrow> string \<times> event list" where
  "generate_response svc self query' context' h =
     (let messages =
            [(''system'', system_prompt self),
             (''user'', ''Context documents:'' @ nl @ context' @ nl @ nl @ ''---'' @ nl @ nl
                        @ ''Question: '' @ query' @ nl @ nl
                        @ ''Please answer based on the context provided above.'')];
          r = completions_create svc h messages;
          h' = h @ [CompletionCall messages r]
      in case r of
           Inr answer \<Rightarrow> (answer, h')
         | Inl e \<Rightarrow>
             (''Sorry, I encountered an error generating a response: '' @ str_exc e, h'))"

text \<open>\<open>RAGChatbot.chat\<close>\<close>

record source_ref =
  source :: pyval
  score :: pyfloat
  chunk_id :: pyval

record chat_result =
  query :: string
  response :: string
  sources :: "source_ref list"
  context_used :: string

definition no_documents_response :: string where
  "no_documents_response =
     ''I couldn't find any relevant documents to answer your question. Please try rephrasing or asking about a different topic.''"

definition chat ::
  "services \<Rightarrow> RAGChatbot \<Rightarrow> string \<Rightarrow> event list \<Rightarrow> (exc + chat_result) \<times> event list" where
  "chat svc self query' h =
     (case search_relevant_docs svc self query' None h of
        (Inl e, h1) \<Rightarrow> (Inl e, h1)
      | (Inr search_results, h1) \<Rightarrow>
          (if search_results = []
           then (Inr \<lparr>query = query', response = no_documents_response, sources = [],
                      context_used = ''''\<rparr>, h1)
           else
             (let context' = build_context svc search_results in
              case generate_response svc self query' context' h1 of
                (response', h2) \<Rightarrow>
                  (Inr \<lparr>query = query', response = response',
                        sources =
                          map (\<lambda>result.
                                 \<lparr>source = dict_get (result_metadata result) ''source''
                                              (PStr ''Unknown''),
                                  score = result_score result,
                                  chunk_id = dict_get (result_metadata result) ''chunk_id''
                                               (PInt 0)\<rparr>)
                            search_results,
                        context_used = context'\<rparr>, h2))))"

text \<open>The completion calls among the events.\<close>

fun is_completion_call :: "event \<Rightarrow> bool" where
  "is_completion_call (CompletionCall m r) = True"
| "is_completion_call e = False"

section \<open>Reading the events\<close>

text \<open>The embedding calls and the store calls among the events, in order.\<close>

fun embedding_calls :: "event list \<Rightarrow> (string \<times> (exc + pyfloat list)) list" where
  "embedding_calls [] = []"
| "embedding_calls (EmbeddingCall t r # es) = (t, r) # embedding_calls es"
| "embedding_calls (e # es) = embedding_calls es"

fun upsert_calls :: "event list \<Rightarrow> (vector list \<times> (exc + unit)) list" where
  "upsert_calls [] = []"
| "upsert_calls (UpsertCall b r # es) = (b, r) # upsert_calls es"
| "upsert_calls (e # es) = upsert_calls es"

text \<open>The sizes of the batches whose store call returned, and of those whose call raised.\<close>

definition stored_sizes :: "(vector list \<times> (exc + unit)) list \<Rightarrow> int list" where
  "stored_sizes calls = map (\<lambda>(b, r). int (length b)) (filter (\<lambda>(b, r). \<not> isl r) calls)"

definition failed_sizes :: "(vector list \<times> (exc + unit)) list \<Rightarrow> int list" where
  "failed_sizes calls = map (\<lambda>(b, r). int (length b)) (filter (\<lambda>(b, r). isl r) calls)"

text \<open>
  The embeddings that were returned, in order, and the chunks that are not blank.
\<close>

definition embedded_values :: "(string \<times> (exc + pyfloat list)) list \<Rightarrow> pyfloat list list" where
  "embedded_values calls =
     concat (map (\<lambda>(t, r). case r of Inr v \<Rightarrow> [v] | Inl e \<Rightarrow> []) calls)"

definition nonblank :: "chunk \<Rightarrow> bool" where
  "nonblank doc \<longleftrightarrow> py_strip (content doc) \<noteq> []"

section \<open>Example environments\<close>

text \<open>
  A directory \<open>docs\<close> with a PDF file that the PDF reader rejects and a text file of four
  words.
\<close>

definition example_fs :: file_system where
  "example_fs =
     \<lparr>path_str = (\<lambda>p. p),
      path_exists = (\<lambda>p. p \<in> set [''docs'', ''docs/bad.pdf'', ''docs/a.txt'']),
      path_is_file = (\<lambda>p. p \<in> set [''docs/bad.pdf'', ''docs/a.txt'']),
      path_suffix = (\<lambda>p. if p = ''docs/bad.pdf'' then ''.pdf''
                          else if p = ''docs/a.txt'' then ''.txt'' else ''''),
      rglob_all = (\<lambda>d. if d = ''docs'' then [''docs/bad.pdf'', ''docs/a.txt''] else []),
      read_text = (\<lambda>p. if p = ''docs/a.txt'' then Inr ''one two three four''
                        else Inl (LibraryError ''cannot read'')),
      pdf_pages = (\<lambda>p. Inl (LibraryError ''EOF marker not found'')),
      docx_paragraphs = (\<lambda>p. Inl (LibraryError ''Package not found'')),
      unstructured_chunks = (\<lambda>p n. Inl (LibraryError ''unsupported file''))\<rparr>"

text \<open>
  Services where the embedding of the text \<open>bad\<close> raises, a store call with a batch of two
  vectors raises, and a query finds nothing; and the same services with a store that
  always raises.
\<close>

definition example_svc :: services where
  "example_svc =
     \<lparr>embeddings_create = (\<lambda>h t. if t = ''bad'' then Inl (LibraryError ''rate limit'')
                                  else Inr []),
      index_upsert = (\<lambda>h b. if length b = 2 then Inl (LibraryError ''store unavailable'')
                             else Inr ()),
      index_query = (\<lambda>h v k f. Inr []),
      completions_create = (\<lambda>h m. Inr ''answer''),
      md5_hexdigest = (\<lambda>c. ''900150983cd24fb0d6963f7d28e17f72''),
      format_score = (\<lambda>x. ''0.000'')\<rparr>"

definition example_svc_down :: services where
  "example_svc_down =
     example_svc\<lparr>index_upsert := (\<lambda>h b. Inl (LibraryError ''store unavailable''))\<rparr>"

text \<open>The same services with an embedding service that always raises.\<close>

definition example_svc_no_embedding :: services where
  "example_svc_no_embedding =
     example_svc\<lparr>embeddings_create := (\<lambda>h t. Inl (LibraryError ''service unavailable''))\<rparr>"

definition example_chunk :: "string \<Rightarrow> int \<Rightarrow> chunk" where
  "example_chunk c i =
     \<lparr>content = c,
      metadata = [(''source'', PStr ''docs/a.txt''), (''chunk_id'', PInt i),
                  (''file_type'', PStr ''txt'')]\<rparr>"

text \<open>
  Five chunks: the embedding of the second raises and the third is blank. With batches of
  two the three vectors built go out in two store calls, of which the first raises.
\<close>

definition example_docs :: "chunk list" where
  "example_docs = [example_chunk ''a'' 0, example_chunk ''bad'' 1, example_chunk '' '' 2,
                   example_chunk ''b'' 3, example_chunk ''c'' 4]"

definition example_vector :: "string \<Rightarrow> int \<Rightarrow> string \<Rightarrow> vector" where
  "example_vector c i vid =
     \<lparr>vector_id = vid, vector_values = [],
      vector_metadata = [(''source'', PStr ''docs/a.txt''), (''chunk_id'', PInt i),
                         (''file_type'', PStr ''txt''), (''content'', PStr c)]\<rparr>"

definition example_events :: "event list" where
  "example_events =
     [EmbeddingCall ''a'' (Inr []),
      EmbeddingCall ''bad'' (Inl (LibraryError ''rate limit'')),
      EmbeddingCall ''b'' (Inr []),
      EmbeddingCall ''c'' (Inr []),
      UpsertCall [example_vector ''a'' 0 ''docs/a.txt_0_90015098'',
                  example_vector ''b'' 3 ''docs/a.txt_3_90015098'']
                 (Inl (LibraryError ''store unavailable'')),
      UpsertCall [example_vector ''c'' 4 ''docs/a.txt_4_90015098''] (Inr ())]"

text \<open>A list of words as \<open>split()\<close> gives them: none is empty, none holds whitespace.\<close>

definition word_list :: "string list \<Rightarrow> bool" where
  "word_list ws \<longleftrightarrow> (\<forall>x\<in>set ws. x \<noteq> [] \<and> (\<forall>c\<in>set x. \<not> is_space c))"

section \<open>Strings, ranges and slices\<close>

lemma range_from_step:
  "0 < step \<Longrightarrow> i < stop \<Longrightarrow> range_from i stop step = i # range_from (i + step) stop step"
  by (subst range_from.simps) simp

lemma range_from_done:
  "0 < step \<Longrightarrow> \<not> i < stop \<Longrightarrow> range_from i stop step = []"
  by (subst range_from.simps) simp

lemma split_from_words:
  "\<forall>c\<in>set w. \<not> is_space c \<Longrightarrow>
   \<forall>x\<in>set (split_from w s). x \<noteq> [] \<and> (\<forall>c\<in>set x. \<not> is_space c)"
proof (induction s arbitrary: w)
  case Nil
  then show ?case by simp
next
  case (Cons a s)
  have e: "\<forall>x\<in>set (split_from [] s). x \<noteq> [] \<and> (\<forall>c\<in>set x. \<not> is_space c)"
    using Cons.IH [of "[]"] by simp
  show ?case
  proof (cases "is_space a")
    case True
    then show ?thesis using e Cons.prems by auto
  next
    case False
    then have "\<forall>c\<in>set (w @ [a]). \<not> is_space c" using Cons.prems by simp
    then show ?thesis using Cons.IH [of "w @ [a]"] False by simp
  qed
qed

lemma py_split_words:
  "x \<in> set (py_split s) \<Longrightarrow> x \<noteq> [] \<and> (\<forall>c\<in>set x. \<not> is_space c)"
  using split_from_words [of "[]" s] by (simp add: py_split_def)

lemma split_from_nospace:
  "\<forall>c\<in>set u. \<not> is_space c \<Longrightarrow> split_from w (u @ s) = split_from (w @ u) s"
  by (induction u arbitrary: w) auto

lemma is_space_blank: "is_space CHR '' ''"
  by (simp add: is_space_def)

lemma split_from_word:
  "u \<noteq> [] \<Longrightarrow> \<forall>c\<in>set u. \<not> is_space c \<Longrightarrow> split_from [] u = [u]"
  using split_from_nospace [of u "[]" "[]"] by simp

lemma py_join_Cons:
  "ws \<noteq> [] \<Longrightarrow> py_join sep (w # ws) = w @ sep @ py_join sep ws"
  by (cases ws) simp_all

lemma py_split_join:
  "word_list ws \<Longrightarrow> py_split (py_join '' '' ws) = ws"
proof (induction ws)
  case Nil
  then show ?case by (simp add: py_split_def)
next
  case (Cons w ws)
  have w: "w \<noteq> []" "\<forall>c\<in>set w. \<not> is_space c"
    using Cons.prems by (auto simp: word_list_def)
  show ?case
  proof (cases "ws = []")
    case True
    then show ?thesis using split_from_word [OF w] by (simp add: py_split_def)
  next
    case False
    have "word_list ws" using Cons.prems by (simp add: word_list_def)
    then have ih: "split_from [] (py_join '' '' ws) = ws"
      using Cons.IH by (simp add: py_split_def)
    have "split_from [] (w @ '' '' @ py_join '' '' ws)
          = split_from w ('' '' @ py_join '' '' ws)"
      using split_from_nospace [OF w(2), of "[]"] by simp
    also have "\<dots> = w # split_from [] (py_join '' '' ws)"
      using w(1) is_space_blank by simp
    finally show ?thesis using ih False by (simp add: py_split_def py_join_Cons)
  qed
qed

lemma range_from_pos:
  "0 < step \<Longrightarrow>
   range_from i stop step = map (\<lambda>k. i + int k * step) [0..<nat (- ((i - stop) div step))]"
proof (induction i stop step rule: range_from.induct)
  case (1 i stop step)
  show ?case
  proof (cases "i < stop")
    case True
    have d: "(i + step - stop) div step = (i - stop) div step + 1"
      using 1(2) by (metis add.commute add_diff_eq div_add_self1 less_irrefl)
    have neg: "(i - stop) div step < 0"
      using True 1(2) by (simp add: div_neg_pos_less0)
    then have n: "nat (- ((i - stop) div step)) = Suc (nat (- ((i + step - stop) div step)))"
      using d by simp
    have "range_from i stop step = i # range_from (i + step) stop step"
      using True 1(2) by (simp add: range_from_step)
    also have "\<dots> = i # map (\<lambda>k. i + step + int k * step) [0..<nat (- ((i + step - stop) div step))]"
      using 1(1) True 1(2) by simp
    also have "\<dots> = map (\<lambda>k. i + int k * step) [0..<nat (- ((i - stop) div step))]"
      unfolding n by (simp add: upt_conv_Cons map_Suc_upt [symmetric] algebra_simps del: upt_Suc)
    finally show ?thesis .
  next
    case False
    then have "0 \<le> (i - stop) div step" using 1(2) by (simp add: pos_imp_zdiv_nonneg_iff)
    then show ?thesis using False 1(2) by (simp add: range_from_done)
  qed
qed


lemma range_from_bounds:
  "0 < step \<Longrightarrow> x \<in> set (range_from i stop step) \<Longrightarrow> i \<le> x \<and> x < stop"
proof (induction i stop step rule: range_from.induct)
  case (1 i stop step)
  show ?case
  proof (cases "i < stop")
    case True
    then have "x = i \<or> x \<in> set (range_from (i + step) stop step)"
      using 1(2,3) by (simp add: range_from_step)
    then show ?thesis
    proof
      assume "x = i"
      then show ?thesis using True by simp
    next
      assume "x \<in> set (range_from (i + step) stop step)"
      then have "i + step \<le> x \<and> x < stop" using 1(1) True 1(2) by blast
      then show ?thesis using 1(2) by linarith
    qed
  next
    case False
    then show ?thesis using 1(2,3) by (simp add: range_from_done)
  qed
qed

lemma py_slice_window:
  "0 \<le> i \<Longrightarrow> 0 \<le> S \<Longrightarrow> py_slice xs i (i + S) = take (nat S) (drop (nat i) xs)"
proof -
  assume i: "0 \<le> i" and S: "0 \<le> S"
  show ?thesis
  proof (cases "i \<le> int (length xs)")
    case True
    then have "py_slice xs i (i + S) = take (nat (min (i + S) (int (length xs)) - i)) (drop (nat i) xs)"
      using i S by (simp add: py_slice_def slice_index_def Let_def)
    also have "\<dots> = take (min (nat S) (length xs - nat i)) (drop (nat i) xs)"
    proof -
      have "nat (min (i + S) (int (length xs)) - i) = min (nat S) (length xs - nat i)"
        using True i S by linarith
      then show ?thesis by simp
    qed
    also have "\<dots> = take (nat S) (drop (nat i) xs)"
      by (simp add: min_def)
    finally show ?thesis .
  next
    case False
    then show ?thesis using i S by (simp add: py_slice_def slice_index_def Let_def)
  qed
qed

lemma word_list_sub:
  "word_list ws \<Longrightarrow> word_list (take a (drop b ws))"
  unfolding word_list_def by (meson in_set_dropD in_set_takeD)

lemma word_list_split: "word_list (py_split s)"
  unfolding word_list_def using py_split_words by blast

lemma chunk_text_windows:
  assumes S: "0 \<le> S" and ov: "ov < S"
  shows "chunk_text \<lparr>chunk_size = S, chunk_overlap = ov\<rparr> text =
           Inr (map (\<lambda>k. py_join '' '' (take (nat S) (drop (k * nat (S - ov)) (py_split text))))
                  [0..<nat (- ((- int (length (py_split text))) div (S - ov)))])"
proof -
  let ?ws = "py_split text"
  let ?d = "S - ov"
  have d: "0 < ?d" using ov by simp
  have r: "range_from 0 (int (length ?ws)) ?d =
             map (\<lambda>k. int k * ?d) [0..<nat (- ((- int (length ?ws)) div ?d))]"
    using range_from_pos [OF d, of 0 "int (length ?ws)"] by simp
  have "\<And>k. py_slice ?ws (int k * ?d) (int k * ?d + S) = take (nat S) (drop (k * nat ?d) ?ws)"
  proof -
    fix k
    have "0 \<le> int k * ?d" using d by simp
    moreover have "nat (int k * ?d) = k * nat ?d" using d by (simp add: nat_mult_distrib)
    ultimately show "py_slice ?ws (int k * ?d) (int k * ?d + S) = take (nat S) (drop (k * nat ?d) ?ws)"
      using py_slice_window [of "int k * ?d" S ?ws] S by simp
  qed
  then show ?thesis
    using d r by (simp add: chunk_text_def py_range_def Let_def comp_def)
qed

lemma ceiling_count:
  assumes d: "0 < d"
  shows "int (nat (- ((- int n) div d))) = \<lceil>real n / real_of_int d\<rceil>"
proof -
  have "(- int n) div d \<le> 0" using d by (simp add: div_nonpos_pos_le0)
  then have "int (nat (- ((- int n) div d))) = - ((- int n) div d)" by simp
  also have "\<dots> = \<lceil>real_of_int (int n) / real_of_int d\<rceil>"
    by (simp only: ceiling_divide_eq_div)
  finally show ?thesis by simp
qed

lemma window_overlap:
  assumes ov: "ov < S" and S: "0 \<le> S"
    and full: "length (take (nat S) (drop (k * nat (S - ov)) ws)) = nat S"
  shows "drop (nat S - nat ov) (take (nat S) (drop (k * nat (S - ov)) ws))
         = take (nat ov) (take (nat S) (drop (Suc k * nat (S - ov)) ws))"
proof (cases "0 \<le> ov")
  case True
  have d: "nat (S - ov) = nat S - nat ov" using True ov by (simp add: nat_diff_distrib)
  have le: "nat ov \<le> nat S" using ov by simp
  have "drop (nat S - nat ov) (take (nat S) (drop (k * nat (S - ov)) ws))
        = take (nat S - (nat S - nat ov)) (drop (nat S - nat ov) (drop (k * nat (S - ov)) ws))"
    by (simp only: drop_take)
  also have "\<dots> = take (nat ov) (drop (Suc k * nat (S - ov)) ws)"
    using le d by (simp add: add.commute)
  also have "\<dots> = take (nat ov) (take (nat S) (drop (Suc k * nat (S - ov)) ws))"
    using le by (simp add: min_def)
  finally show ?thesis .
next
  case False
  then have "nat ov = 0" by simp
  then show ?thesis using full by simp
qed

section \<open>Chunking\<close>

text \<open>
  Sliding windows over the words, for a size that is not negative and any smaller overlap
  (the overlap part speaks of no words when the overlap is negative). The words of a chunk
  are read back with \<open>split()\<close>.
\<close>

lemma chunk_text_windows_general:
  assumes S: "0 \<le> S" and ov: "ov < S"
  shows "\<exists>chunks. chunk_text \<lparr>chunk_size = S, chunk_overlap = ov\<rparr> text = Inr chunks
     \<and> int (length chunks) = \<lceil>real (length (py_split text)) / real_of_int (S - ov)\<rceil>
     \<and> (\<forall>c\<in>set chunks. int (length (py_split c)) \<le> S)
     \<and> (\<forall>k. Suc k < length chunks \<and> int (length (py_split (chunks ! k))) = S \<longrightarrow>
            drop (length (py_split (chunks ! k)) - nat ov) (py_split (chunks ! k))
            = take (nat ov) (py_split (chunks ! Suc k)))"
proof -
  define ws where "ws = py_split text"
  define m where "m = nat (- ((- int (length ws)) div (S - ov)))"
  define win where "win = (\<lambda>k. take (nat S) (drop (k * nat (S - ov)) ws))"
  define chunks where "chunks = map (\<lambda>k. py_join '' '' (win k)) [0..<m]"
  have d: "0 < S - ov" using ov by simp
  have eq: "chunk_text \<lparr>chunk_size = S, chunk_overlap = ov\<rparr> text = Inr chunks"
    using chunk_text_windows [OF S ov, of "text"] by (simp add: chunks_def win_def m_def ws_def)
  have len: "length chunks = m" by (simp add: chunks_def)
  have cnt: "int (length chunks) = \<lceil>real (length (py_split text)) / real_of_int (S - ov)\<rceil>"
    using ceiling_count [OF d, of "length ws"] by (simp add: len m_def ws_def)
  have wl: "\<And>k. word_list (win k)"
    unfolding win_def ws_def by (rule word_list_sub [OF word_list_split])
  have sp: "\<And>k. k < m \<Longrightarrow> py_split (chunks ! k) = win k"
    using wl by (simp add: chunks_def py_split_join)
  have bound: "\<forall>c\<in>set chunks. int (length (py_split c)) \<le> S"
  proof
    fix c assume "c \<in> set chunks"
    then obtain k where "k < m" "c = chunks ! k"
      using len by (metis in_set_conv_nth)
    then have "py_split c = win k" using sp by simp
    moreover have "length (win k) \<le> nat S" by (simp add: win_def)
    ultimately show "int (length (py_split c)) \<le> S" using S by simp
  qed
  have ovl: "\<forall>k. Suc k < length chunks \<and> int (length (py_split (chunks ! k))) = S \<longrightarrow>
            drop (length (py_split (chunks ! k)) - nat ov) (py_split (chunks ! k))
            = take (nat ov) (py_split (chunks ! Suc k))"
  proof (intro allI impI)
    fix k
    assume a: "Suc k < length chunks \<and> int (length (py_split (chunks ! k))) = S"
    then have k: "k < m" "Suc k < m" using len by simp_all
    have full: "length (win k) = nat S" using a sp [OF k(1)] by auto
    have "drop (nat S - nat ov) (win k) = take (nat ov) (win (Suc k))"
      using window_overlap [OF ov S] full unfolding win_def by blast
    then show "drop (length (py_split (chunks ! k)) - nat ov) (py_split (chunks ! k))
            = take (nat ov) (py_split (chunks ! Suc k))"
      using sp [OF k(1)] sp [OF k(2)] full by simp
  qed
  show ?thesis using eq cnt bound ovl by blast
qed

text \<open>
  C1. Chunking with \<open>chunk_size = S\<close> and \<open>chunk_overlap = ov\<close>, two word counts with
  \<open>ov < S\<close>, returns exactly \<open>\<lceil>total_words / (S - ov)\<rceil>\<close> chunks; each chunk spans at most
  \<open>S\<close> words; and whenever a chunk holds exactly \<open>S\<close> words and has a successor, its last
  \<open>ov\<close> words are the first \<open>ov\<close> words of the successor. This holds for every text, with
  or without words.
\<close>

theorem chunk_text_overlapping_windows:
  assumes ov0: "0 \<le> ov" and ov: "ov < S"
  shows "\<exists>chunks. chunk_text \<lparr>chunk_size = S, chunk_overlap = ov\<rparr> text = Inr chunks
     \<and> int (length chunks) = \<lceil>real (length (py_split text)) / real_of_int (S - ov)\<rceil>
     \<and> (\<forall>c\<in>set chunks. int (length (py_split c)) \<le> S)
     \<and> (\<forall>k. Suc k < length chunks \<and> int (length (py_split (chunks ! k))) = S \<longrightarrow>
            drop (length (py_split (chunks ! k)) - nat ov) (py_split (chunks ! k))
            = take (nat ov) (py_split (chunks ! Suc k)))"
proof -
  have "0 \<le> S" using ov0 ov by simp
  then show ?thesis using ov by (rule chunk_text_windows_general)
qed

theorem chunk_text_overlapping_windows_witness:
  "(0::int) \<le> 1 \<and> (1::int) < 3
   \<and> chunk_text \<lparr>chunk_size = 3, chunk_overlap = 1\<rparr> ''a b  c d e''
       = Inr [''a b c'', ''c d e'', ''e'']
   \<and> (3::int) = \<lceil>real (length (py_split ''a b  c d e'')) / real_of_int (3 - 1)\<rceil>
   \<and> int (length (py_split ''a b c'')) = 3
   \<and> drop (length (py_split ''a b c'') - nat 1) (py_split ''a b c'')
       = take (nat 1) (py_split ''c d e'')"
proof -
  have ev: "chunk_text \<lparr>chunk_size = 3, chunk_overlap = 1\<rparr> ''a b  c d e''
              = Inr [''a b c'', ''c d e'', ''e'']"
    by code_simp
  have s0: "py_split ''a b c'' = [''a'', ''b'', ''c'']"
    by code_simp
  obtain chunks where
    c1: "chunk_text \<lparr>chunk_size = 3, chunk_overlap = 1\<rparr> ''a b  c d e'' = Inr chunks" and
    c2: "int (length chunks)
           = \<lceil>real (length (py_split ''a b  c d e'')) / real_of_int (3 - 1)\<rceil>" and
    c4: "\<forall>k. Suc k < length chunks \<and> int (length (py_split (chunks ! k))) = 3 \<longrightarrow>
            drop (length (py_split (chunks ! k)) - nat 1) (py_split (chunks ! k))
            = take (nat 1) (py_split (chunks ! Suc k))"
    using chunk_text_overlapping_windows [of 1 3 "''a b  c d e''"] by auto
  have cs: "chunks = [''a b c'', ''c d e'', ''e'']"
    using c1 ev by simp
  have len: "int (length (py_split ''a b c'')) = 3"
    by (simp add: s0)
  have "Suc 0 < length chunks \<and> int (length (py_split (chunks ! 0))) = 3"
    using len by (simp add: cs)
  then have "drop (length (py_split (chunks ! 0)) - nat 1) (py_split (chunks ! 0))
              = take (nat 1) (py_split (chunks ! Suc 0))"
    using c4 by blast
  then have ov: "drop (length (py_split ''a b c'') - nat 1) (py_split ''a b c'')
                  = take (nat 1) (py_split ''c d e'')"
    by (simp add: cs)
  have "(3::int) = \<lceil>real (length (py_split ''a b  c d e'')) / real_of_int (3 - 1)\<rceil>"
    using c2 by (simp add: cs)
  then show ?thesis using ev len ov by simp
qed

section \<open>Construction of the parser\<close>

text \<open>
  The constructor checks nothing: whatever the two values are, it returns a parser that
  stores them. A parser with \<open>chunk_overlap = chunk_size\<close> then raises in \<open>range\<close> when
  it chunks, and a parser with \<open>chunk_overlap > chunk_size\<close> returns no chunk for any text.
\<close>

lemma DocumentParser_init_accepts_every_pair:
  "\<exists>p. DocumentParser_init csize coverlap = Inr p
       \<and> chunk_size p = csize \<and> chunk_overlap p = coverlap"
  by (simp add: DocumentParser_init_def)

lemma range_from_neg_step:
  "step < 0 \<Longrightarrow> i \<le> stop \<Longrightarrow> range_from i stop step = []"
  by (subst range_from.simps) simp

lemma chunk_text_zero_step:
  "chunk_overlap self = chunk_size self \<Longrightarrow>
   chunk_text self t = Inl (ValueError ''range() arg 3 must not be zero'')"
  by (simp add: chunk_text_def py_range_def)

lemma chunk_text_negative_step:
  "chunk_size self < chunk_overlap self \<Longrightarrow> chunk_text self t = Inr []"
  by (simp add: chunk_text_def py_range_def range_from_neg_step)

text \<open>
  C3. The claim is that a configuration with \<open>chunk_overlap \<ge> chunk_size\<close> is rejected at
  construction. The code at two such configurations: for \<open>(100, 100)\<close> and for
  \<open>(100, 200)\<close> the constructor returns a parser; chunking three words with the first
  raises \<open>ValueError\<close>, and with the second it returns no chunk.
\<close>

theorem DocumentParser_init_unchecked:
  "DocumentParser_init 100 100 = Inr \<lparr>chunk_size = 100, chunk_overlap = 100\<rparr>
   \<and> chunk_text \<lparr>chunk_size = 100, chunk_overlap = 100\<rparr> ''one two three''
       = Inl (ValueError ''range() arg 3 must not be zero'')
   \<and> DocumentParser_init 100 200 = Inr \<lparr>chunk_size = 100, chunk_overlap = 200\<rparr>
   \<and> chunk_text \<lparr>chunk_size = 100, chunk_overlap = 200\<rparr> ''one two three'' = Inr []"
  by (simp add: DocumentParser_init_def chunk_text_zero_step chunk_text_negative_step)

section \<open>The chunk invariant\<close>

lemma py_strip_empty_iff: "py_strip s = [] \<longleftrightarrow> (\<forall>c\<in>set s. is_space c)"
proof
  assume "py_strip s = []"
  then have "dropWhile is_space (rev (dropWhile is_space s)) = []"
    by (simp add: py_strip_def)
  then have a: "\<forall>c\<in>set (dropWhile is_space s). is_space c"
    by (simp add: dropWhile_eq_Nil_conv)
  have "dropWhile is_space s = []"
  proof (rule ccontr)
    assume n: "dropWhile is_space s \<noteq> []"
    then have "\<not> is_space (hd (dropWhile is_space s))" by (rule hd_dropWhile)
    moreover have "hd (dropWhile is_space s) \<in> set (dropWhile is_space s)"
      using n by simp
    ultimately show False using a by blast
  qed
  then show "\<forall>c\<in>set s. is_space c" by (simp add: dropWhile_eq_Nil_conv)
next
  assume "\<forall>c\<in>set s. is_space c"
  then have "dropWhile is_space s = []" by (simp add: dropWhile_eq_Nil_conv)
  then show "py_strip s = []" unfolding py_strip_def by (simp del: dropWhile_eq_Nil_conv)
qed

lemma set_py_join_first: "set w \<subseteq> set (py_join sep (w # ws))"
  by (cases ws) auto

lemma py_strip_join_words:
  assumes "word_list ws" and "ws \<noteq> []"
  shows "py_strip (py_join '' '' ws) \<noteq> []"
proof -
  obtain w rest where ws: "ws = w # rest" using assms(2) by (cases ws) auto
  then have w: "w \<noteq> []" "\<forall>c\<in>set w. \<not> is_space c"
    using assms(1) by (auto simp: word_list_def)
  then have "hd w \<in> set w" "\<not> is_space (hd w)" by simp_all
  then have "\<exists>c\<in>set (py_join '' '' ws). \<not> is_space c"
    using set_py_join_first [of w "'' ''" rest] ws by blast
  then show ?thesis by (simp add: py_strip_empty_iff)
qed

lemma chunk_text_contents:
  assumes S0: "0 \<le> chunk_size self" and O0: "0 \<le> chunk_overlap self"
    and r: "chunk_text self t = Inr cs" and c: "c \<in> set cs"
  shows "py_strip c \<noteq> []"
proof -
  let ?ws = "py_split t"
  let ?d = "chunk_size self - chunk_overlap self"
  have nz: "?d \<noteq> 0" using r by (auto simp: chunk_text_def py_range_def split: if_splits)
  have cs: "cs = map (\<lambda>i. py_join '' '' (py_slice ?ws i (i + chunk_size self)))
                    (range_from 0 (int (length ?ws)) ?d)"
    using r nz by (simp add: chunk_text_def py_range_def Let_def)
  show ?thesis
  proof (cases "0 < ?d")
    case False
    then have "range_from 0 (int (length ?ws)) ?d = []"
      using nz by (simp add: range_from_neg_step)
    then show ?thesis using c cs by simp
  next
    case True
    then have S: "0 < chunk_size self" using O0 by simp
    obtain i where i: "i \<in> set (range_from 0 (int (length ?ws)) ?d)"
      and ci: "c = py_join '' '' (py_slice ?ws i (i + chunk_size self))"
      using c cs by auto
    have b: "0 \<le> i" "i < int (length ?ws)" using range_from_bounds [OF True i] by simp_all
    have sl: "py_slice ?ws i (i + chunk_size self) = take (nat (chunk_size self)) (drop (nat i) ?ws)"
      using py_slice_window [of i "chunk_size self" ?ws] b S by simp
    have "drop (nat i) ?ws \<noteq> []" using b by simp
    then have ne: "take (nat (chunk_size self)) (drop (nat i) ?ws) \<noteq> []"
      using S by (cases "drop (nat i) ?ws") (simp_all add: take_Cons')
    have "word_list (take (nat (chunk_size self)) (drop (nat i) ?ws))"
      by (rule word_list_sub [OF word_list_split])
    then show ?thesis using ne ci sl by (simp add: py_strip_join_words)
  qed
qed

lemma numbered_chunks:
  "i < length cs \<Longrightarrow>
   map (\<lambda>(i, c). \<lparr>content = c, metadata = (''source'', s) # (''chunk_id'', PInt (int i)) # m\<rparr>)
       (enumerate 0 cs) ! i
   = \<lparr>content = cs ! i, metadata = (''source'', s) # (''chunk_id'', PInt (int i)) # m\<rparr>"
  by (simp add: nth_enumerate_eq)

text \<open>
  C8. For every document parsed through a text-based path (plain text, PDF, DOCX), by a
  parser whose two sizes are word counts, the returned chunk list satisfies the chunk
  invariant: the chunk at position \<open>i\<close> carries \<open>chunk_id = i\<close>, and the content of each
  chunk is non-empty after trimming whitespace.
\<close>

theorem text_paths_chunk_invariant:
  assumes S: "0 \<le> chunk_size self" and ov: "0 \<le> chunk_overlap self"
    and p: "parse_txt fs self file_path = Inr chunks
            \<or> parse_pdf fs self file_path = Inr chunks
            \<or> parse_docx fs self file_path = Inr chunks"
  shows "\<forall>i<length chunks.
           map_of (metadata (chunks ! i)) ''chunk_id'' = Some (PInt (int i))
           \<and> py_strip (content (chunks ! i)) \<noteq> []"
proof -
  obtain t cs m s where cs: "chunk_text self t = Inr cs"
    and ch: "chunks = map (\<lambda>(i, c). \<lparr>content = c,
                 metadata = (''source'', s) # (''chunk_id'', PInt (int i)) # m\<rparr>) (enumerate 0 cs)"
    using p
    by (auto simp: parse_txt_def parse_pdf_def parse_docx_def Let_def split: sum.splits)
  show ?thesis
  proof (intro allI impI)
    fix i assume "i < length chunks"
    then have i: "i < length cs" by (simp add: ch)
    then have e: "chunks ! i = \<lparr>content = cs ! i,
                    metadata = (''source'', s) # (''chunk_id'', PInt (int i)) # m\<rparr>"
      unfolding ch by (rule numbered_chunks)
    have "cs ! i \<in> set cs" using i by simp
    then have "py_strip (cs ! i) \<noteq> []" using chunk_text_contents [OF S ov cs] by blast
    then show "map_of (metadata (chunks ! i)) ''chunk_id'' = Some (PInt (int i))
           \<and> py_strip (content (chunks ! i)) \<noteq> []"
      by (simp add: e)
  qed
qed

theorem text_paths_chunk_invariant_witness:
  "0 \<le> chunk_size \<lparr>chunk_size = 3, chunk_overlap = 1\<rparr>
   \<and> 0 \<le> chunk_overlap \<lparr>chunk_size = 3, chunk_overlap = 1\<rparr>
   \<and> parse_txt example_fs \<lparr>chunk_size = 3, chunk_overlap = 1\<rparr> ''docs/a.txt''
       = Inr [example_chunk ''one two three'' 0, example_chunk ''three four'' 1]
   \<and> map_of (metadata (example_chunk ''one two three'' 0)) ''chunk_id'' = Some (PInt 0)
   \<and> map_of (metadata (example_chunk ''three four'' 1)) ''chunk_id'' = Some (PInt 1)
   \<and> py_strip ''one two three'' \<noteq> []
   \<and> py_strip ''three four'' \<noteq> []"
proof -
  let ?p = "\<lparr>chunk_size = 3, chunk_overlap = 1\<rparr>"
  let ?cs = "[example_chunk ''one two three'' 0, example_chunk ''three four'' 1]"
  have s: "0 \<le> chunk_size ?p" by simp
  have o: "0 \<le> chunk_overlap ?p" by simp
  have ev: "parse_txt example_fs ?p ''docs/a.txt'' = Inr ?cs"
    by code_simp
  have inv: "\<forall>i<length ?cs.
           map_of (metadata (?cs ! i)) ''chunk_id'' = Some (PInt (int i))
           \<and> py_strip (content (?cs ! i)) \<noteq> []"
  proof -
    have d: "parse_txt example_fs ?p ''docs/a.txt'' = Inr ?cs
             \<or> parse_pdf example_fs ?p ''docs/a.txt'' = Inr ?cs
             \<or> parse_docx example_fs ?p ''docs/a.txt'' = Inr ?cs"
      using ev by (rule disjI1)
    show ?thesis by (rule text_paths_chunk_invariant [OF s o d])
  qed
  have i0: "map_of (metadata (example_chunk ''one two three'' 0)) ''chunk_id'' = Some (PInt 0)
           \<and> py_strip (content (example_chunk ''one two three'' 0)) \<noteq> []"
    using inv [rule_format, of 0] by simp
  have i1: "map_of (metadata (example_chunk ''three four'' 1)) ''chunk_id'' = Some (PInt 1)
           \<and> py_strip (content (example_chunk ''three four'' 1)) \<noteq> []"
    using inv [rule_format, of 1] by simp
  have c: "\<And>t i. content (example_chunk t i) = t" by (simp add: example_chunk_def)
  show ?thesis using s o ev i0 i1 by (simp only: c simp_thms)
qed

section \<open>Scanning a directory\<close>

lemma parse_directory_loop_result:
  "parse_directory_loop fs self exts files acc =
     Inr (acc @ concat (map (\<lambda>f. case parse_document fs self (path_str fs f) of
                                   Inr chunks \<Rightarrow> chunks | Inl e \<Rightarrow> [])
                          (filter (\<lambda>f. path_is_file fs f
                                        \<and> py_lower (path_suffix fs f) \<in> set exts) files)))"
  by (induction files arbitrary: acc) (auto split: sum.splits)

text \<open>
  C5. \<open>parse_directory\<close> never raises because a file failed to parse: it returns, in the
  order of the scan, the chunks of every eligible file that parsed, and nothing for a file
  whose parsing raised.
\<close>

theorem parse_directory_skips_failures:
  "parse_directory fs self directory_path file_extensions =
     Inr (concat (map (\<lambda>f. case parse_document fs self (path_str fs f) of
                             Inr chunks \<Rightarrow> chunks | Inl e \<Rightarrow> [])
                    (filter (\<lambda>f. path_is_file fs f
                                  \<and> py_lower (path_suffix fs f)
                                      \<in> set (case file_extensions of
                                               None \<Rightarrow> default_extensions | Some es \<Rightarrow> es))
                       (rglob_all fs directory_path))))"
  by (simp add: parse_directory_def parse_directory_loop_result)

text \<open>
  A directory with one corrupt file and one valid file yields exactly the chunks of the
  valid file.
\<close>

theorem parse_directory_skips_failures_witness:
  "parse_document example_fs \<lparr>chunk_size = 3, chunk_overlap = 1\<rparr> ''docs/bad.pdf''
     = Inl (LibraryError ''EOF marker not found'')
   \<and> parse_document example_fs \<lparr>chunk_size = 3, chunk_overlap = 1\<rparr> ''docs/a.txt''
     = Inr [example_chunk ''one two three'' 0, example_chunk ''three four'' 1]
   \<and> parse_directory example_fs \<lparr>chunk_size = 3, chunk_overlap = 1\<rparr> ''docs'' None
     = Inr [example_chunk ''one two three'' 0, example_chunk ''three four'' 1]"
proof -
  let ?p = "\<lparr>chunk_size = 3, chunk_overlap = 1\<rparr>"
  have bad: "parse_document example_fs ?p ''docs/bad.pdf''
               = Inl (LibraryError ''EOF marker not found'')"
    by code_simp
  have good: "parse_document example_fs ?p ''docs/a.txt''
     = Inr [example_chunk ''one two three'' 0, example_chunk ''three four'' 1]"
    by code_simp
  have files: "rglob_all example_fs ''docs'' = [''docs/bad.pdf'', ''docs/a.txt'']"
    by (simp add: example_fs_def)
  have el: "filter (\<lambda>f. path_is_file example_fs f
                  \<and> py_lower (path_suffix example_fs f) \<in> set default_extensions)
              [''docs/bad.pdf'', ''docs/a.txt''] = [''docs/bad.pdf'', ''docs/a.txt'']"
    by code_simp
  have ps: "path_str example_fs = (\<lambda>p. p)"
    by (simp add: example_fs_def)
  have "parse_directory example_fs ?p ''docs'' None
     = Inr (concat (map (\<lambda>f. case parse_document example_fs ?p (path_str example_fs f) of
                             Inr chunks \<Rightarrow> chunks | Inl e \<Rightarrow> [])
                      [''docs/bad.pdf'', ''docs/a.txt'']))"
    using parse_directory_skips_failures [of example_fs ?p "''docs''" None]
    by (simp only: files option.case el)
  then have "parse_directory example_fs ?p ''docs'' None
     = Inr [example_chunk ''one two three'' 0, example_chunk ''three four'' 1]"
    by (simp add: ps bad good)
  then show ?thesis using bad good by simp
qed

section \<open>Vector ids\<close>

lemma py_slice_prefix: "0 \<le> n \<Longrightarrow> py_slice xs 0 n = take (nat n) xs"
  using py_slice_window [of 0 n xs] by simp

text \<open>
  C4. The id computed by \<open>_generate_id\<close> depends only on the source, the chunk id and the
  content: it is the text \<open>{source}_{chunk_id}_{p}\<close>, where \<open>p\<close> is the first eight
  characters of the MD5 hex digest of the content, and two metadata dictionaries with the
  same source and chunk id give the same id for the same content.
\<close>

theorem generate_id_format:
  assumes "map_of md ''source'' = Some sv" and "map_of md ''chunk_id'' = Some cv"
    and "map_of md' ''source'' = Some sv" and "map_of md' ''chunk_id'' = Some cv"
  shows "generate_id svc c md
           = py_format sv @ ''_'' @ py_format cv @ ''_'' @ take 8 (md5_hexdigest svc c)
         \<and> generate_id svc c md' = generate_id svc c md"
  using assms by (simp add: generate_id_def dict_get_def py_slice_prefix)

theorem generate_id_format_witness:
  "map_of (metadata (example_chunk ''abc'' 12)) ''source'' = Some (PStr ''docs/a.txt'')
   \<and> map_of (metadata (example_chunk ''abc'' 12)) ''chunk_id'' = Some (PInt 12)
   \<and> map_of [(''chunk_id'', PInt 12), (''source'', PStr ''docs/a.txt'')] ''source''
       = Some (PStr ''docs/a.txt'')
   \<and> map_of [(''chunk_id'', PInt 12), (''source'', PStr ''docs/a.txt'')] ''chunk_id''
       = Some (PInt 12)
   \<and> generate_id example_svc ''abc'' (metadata (example_chunk ''abc'' 12))
       = ''docs/a.txt_12_90015098''
   \<and> generate_id example_svc ''abc'' [(''chunk_id'', PInt 12), (''source'', PStr ''docs/a.txt'')]
       = ''docs/a.txt_12_90015098''"
proof -
  let ?md = "metadata (example_chunk ''abc'' 12)"
  let ?md' = "[(''chunk_id'', PInt 12), (''source'', PStr ''docs/a.txt'')]"
  have a: "map_of ?md ''source'' = Some (PStr ''docs/a.txt'')"
    by (simp add: example_chunk_def)
  have b: "map_of ?md ''chunk_id'' = Some (PInt 12)"
    by (simp add: example_chunk_def)
  have a': "map_of ?md' ''source'' = Some (PStr ''docs/a.txt'')" by simp
  have b': "map_of ?md' ''chunk_id'' = Some (PInt 12)" by simp
  have n: "str_int 12 = ''12''" by code_simp
  have h: "take 8 (md5_hexdigest example_svc ''abc'') = ''90015098''"
    by (simp add: example_svc_def)
  have "generate_id example_svc ''abc'' ?md
           = py_format (PStr ''docs/a.txt'') @ ''_'' @ py_format (PInt 12) @ ''_''
               @ take 8 (md5_hexdigest example_svc ''abc'')
        \<and> generate_id example_svc ''abc'' ?md' = generate_id example_svc ''abc'' ?md"
    by (rule generate_id_format [OF a b a' b'])
  then have "generate_id example_svc ''abc'' ?md = ''docs/a.txt_12_90015098''
        \<and> generate_id example_svc ''abc'' ?md' = ''docs/a.txt_12_90015098''"
    by (simp add: n h)
  then show ?thesis using a b a' b' by simp
qed

section \<open>A query without results\<close>

lemma search_appends:
  assumes "search svc q k f h = (r, h1)"
  shows "\<exists>es. h1 = h @ es \<and> filter is_completion_call es = []"
proof (cases "embeddings_create svc h q")
  case (Inl e)
  then have "h1 = h @ [EmbeddingCall q (Inl e)]"
    using assms by (auto simp: search_def generate_embedding_def Let_def)
  then show ?thesis by simp
next
  case (Inr v)
  let ?h = "h @ [EmbeddingCall q (Inr v)]"
  have "h1 = ?h @ [QueryCall v k f (index_query svc ?h v k f)]"
    using assms Inr
    by (auto simp: search_def generate_embedding_def Let_def split: sum.splits)
  then show ?thesis by simp
qed

text \<open>
  C7. When the search step of \<open>chat\<close> returns an empty list, \<open>chat\<close> returns the fixed
  response with an empty list of sources, and the events of that execution hold no
  completion call.
\<close>

theorem chat_without_results:
  assumes "search_relevant_docs svc self q None h = (Inr [], h1)"
  shows "chat svc self q h
           = (Inr \<lparr>query = q, response = no_documents_response, sources = [],
                   context_used = ''''\<rparr>, h1)
         \<and> (\<exists>es. h1 = h @ es \<and> filter is_completion_call es = [])"
proof -
  have "chat svc self q h
           = (Inr \<lparr>query = q, response = no_documents_response, sources = [],
                   context_used = ''''\<rparr>, h1)"
    using assms by (simp add: chat_def)
  moreover have "\<exists>es. h1 = h @ es \<and> filter is_completion_call es = []"
    using assms search_appends
    unfolding search_relevant_docs_def search_documents_def by blast
  ultimately show ?thesis by simp
qed

theorem chat_without_results_witness:
  "search_relevant_docs example_svc (RAGChatbot_init 5) ''what is RCM'' None []
     = (Inr [], [EmbeddingCall ''what is RCM'' (Inr []), QueryCall [] 5 None (Inr [])])
   \<and> chat example_svc (RAGChatbot_init 5) ''what is RCM'' []
     = (Inr \<lparr>query = ''what is RCM'', response = no_documents_response, sources = [],
             context_used = ''''\<rparr>,
        [EmbeddingCall ''what is RCM'' (Inr []), QueryCall [] 5 None (Inr [])])
   \<and> filter is_completion_call
        [EmbeddingCall ''what is RCM'' (Inr []), QueryCall [] 5 None (Inr [])] = []"
proof -
  let ?h1 = "[EmbeddingCall ''what is RCM'' (Inr []), QueryCall [] 5 None (Inr [])]"
  have s: "search_relevant_docs example_svc (RAGChatbot_init 5) ''what is RCM'' None []
             = (Inr [], ?h1)"
    by (simp add: search_relevant_docs_def search_documents_def search_def
        generate_embedding_def example_svc_def RAGChatbot_init_def Let_def)
  have "chat example_svc (RAGChatbot_init 5) ''what is RCM'' []
     = (Inr \<lparr>query = ''what is RCM'', response = no_documents_response, sources = [],
             context_used = ''''\<rparr>, ?h1)"
    using chat_without_results [OF s] by simp
  then show ?thesis using s by simp
qed

text \<open>With results the completion service is called, once, after the search.\<close>

lemma chat_with_results_calls_completion:
  assumes "search_relevant_docs svc self q None h = (Inr rs, h1)" and "rs \<noteq> []"
  shows "\<exists>c m r. chat svc self q h = (Inr c, h1 @ [CompletionCall m r])
                 \<and> sources c \<noteq> [] \<and> context_used c = build_context svc rs"
  using assms by (auto simp: chat_def generate_response_def Let_def split: sum.splits)

section \<open>The two loops of upsert\_documents\<close>

lemma embedding_calls_append:
  "embedding_calls (xs @ ys) = embedding_calls xs @ embedding_calls ys"
  by (induction xs rule: embedding_calls.induct) simp_all

lemma upsert_calls_append:
  "upsert_calls (xs @ ys) = upsert_calls xs @ upsert_calls ys"
  by (induction xs rule: upsert_calls.induct) simp_all

lemma build_vectors_events:
  "build_vectors svc docs vs h = (vs', h') \<Longrightarrow>
   \<exists>es new. h' = h @ es \<and> vs' = vs @ new
     \<and> map fst (embedding_calls es) = map content (filter nonblank docs)
     \<and> upsert_calls es = []
     \<and> map vector_values new = embedded_values (embedding_calls es)"
proof (induction docs arbitrary: vs h)
  case Nil
  then show ?case by (simp add: embedded_values_def)
next
  case (Cons doc docs)
  show ?case
  proof (cases "py_strip (content doc) = []")
    case True
    then have "build_vectors svc docs vs h = (vs', h')" using Cons.prems by simp
    from Cons.IH [OF this] show ?thesis using True by (simp add: nonblank_def)
  next
    case False
    let ?r = "embeddings_create svc h (content doc)"
    let ?h = "h @ [EmbeddingCall (content doc) ?r]"
    show ?thesis
    proof (cases ?r)
      case (Inl e)
      then have "build_vectors svc docs vs ?h = (vs', h')"
        using Cons.prems False by (simp add: generate_embedding_def Let_def)
      from Cons.IH [OF this] obtain es new where
        a: "h' = ?h @ es" "vs' = vs @ new"
           "map fst (embedding_calls es) = map content (filter nonblank docs)"
           "upsert_calls es = []"
           "map vector_values new = embedded_values (embedding_calls es)"
        by blast
      let ?es = "EmbeddingCall (content doc) ?r # es"
      have "h' = h @ ?es" using a(1) by simp
      moreover have "map fst (embedding_calls ?es) = map content (filter nonblank (doc # docs))"
        using a(3) False by (simp add: nonblank_def)
      moreover have "upsert_calls ?es = []" using a(4) by simp
      moreover have "map vector_values new = embedded_values (embedding_calls ?es)"
        using a(5) Inl by (simp add: embedded_values_def)
      ultimately show ?thesis using a(2) by blast
    next
      case (Inr v)
      let ?vec = "\<lparr>vector_id = generate_id svc (content doc) (metadata doc),
                    vector_values = v,
                    vector_metadata =
                      dict_set (metadata doc) ''content''
                        (PStr (py_slice (content doc) 0 1000))\<rparr>"
      have "build_vectors svc docs (vs @ [?vec]) ?h = (vs', h')"
        using Cons.prems False Inr by (simp add: generate_embedding_def Let_def)
      from Cons.IH [OF this] obtain es new where
        a: "h' = ?h @ es" "vs' = (vs @ [?vec]) @ new"
           "map fst (embedding_calls es) = map content (filter nonblank docs)"
           "upsert_calls es = []"
           "map vector_values new = embedded_values (embedding_calls es)"
        by blast
      let ?es = "EmbeddingCall (content doc) ?r # es"
      have "h' = h @ ?es" using a(1) by simp
      moreover have "vs' = vs @ (?vec # new)" using a(2) by simp
      moreover have "map fst (embedding_calls ?es) = map content (filter nonblank (doc # docs))"
        using a(3) False by (simp add: nonblank_def)
      moreover have "upsert_calls ?es = []" using a(4) by simp
      moreover have "map vector_values (?vec # new) = embedded_values (embedding_calls ?es)"
        using a(5) Inr by (simp add: embedded_values_def)
      ultimately show ?thesis by blast
    qed
  qed
qed

lemma upsert_batches_events:
  "upsert_batches svc vs bs is (u, f) h = ((u', f'), h') \<Longrightarrow>
   \<exists>es. h' = h @ es \<and> embedding_calls es = []
     \<and> map fst (upsert_calls es) = map (\<lambda>i. py_slice vs i (i + bs)) is
     \<and> u' = u + sum_list (stored_sizes (upsert_calls es))
     \<and> f' = f + sum_list (failed_sizes (upsert_calls es))"
proof (induction "is" arbitrary: u f h)
  case Nil
  then show ?case by (simp add: stored_sizes_def failed_sizes_def)
next
  case (Cons i "is")
  let ?b = "py_slice vs i (i + bs)"
  let ?r = "index_upsert svc h ?b"
  let ?h = "h @ [UpsertCall ?b ?r]"
  show ?case
  proof (cases ?r)
    case (Inl e)
    then have "upsert_batches svc vs bs is (u, f + int (length ?b)) ?h = ((u', f'), h')"
      using Cons.prems by (simp add: Let_def)
    from Cons.IH [OF this] obtain es where
      a: "h' = ?h @ es" "embedding_calls es = []"
         "map fst (upsert_calls es) = map (\<lambda>i. py_slice vs i (i + bs)) is"
         "u' = u + sum_list (stored_sizes (upsert_calls es))"
         "f' = f + int (length ?b) + sum_list (failed_sizes (upsert_calls es))"
      by blast
    let ?es = "UpsertCall ?b ?r # es"
    have "h' = h @ ?es" using a(1) by simp
    moreover have "embedding_calls ?es = []" using a(2) by simp
    moreover have "map fst (upsert_calls ?es) = map (\<lambda>i. py_slice vs i (i + bs)) (i # is)"
      using a(3) by simp
    moreover have "u' = u + sum_list (stored_sizes (upsert_calls ?es))"
      using a(4) Inl by (simp add: stored_sizes_def)
    moreover have "f' = f + sum_list (failed_sizes (upsert_calls ?es))"
      using a(5) Inl by (simp add: failed_sizes_def)
    ultimately show ?thesis by blast
  next
    case (Inr x)
    then have "upsert_batches svc vs bs is (u + int (length ?b), f) ?h = ((u', f'), h')"
      using Cons.prems by (simp add: Let_def)
    from Cons.IH [OF this] obtain es where
      a: "h' = ?h @ es" "embedding_calls es = []"
         "map fst (upsert_calls es) = map (\<lambda>i. py_slice vs i (i + bs)) is"
         "u' = u + int (length ?b) + sum_list (stored_sizes (upsert_calls es))"
         "f' = f + sum_list (failed_sizes (upsert_calls es))"
      by blast
    let ?es = "UpsertCall ?b ?r # es"
    have "h' = h @ ?es" using a(1) by simp
    moreover have "embedding_calls ?es = []" using a(2) by simp
    moreover have "map fst (upsert_calls ?es) = map (\<lambda>i. py_slice vs i (i + bs)) (i # is)"
      using a(3) by simp
    moreover have "u' = u + sum_list (stored_sizes (upsert_calls ?es))"
      using a(4) Inr by (simp add: stored_sizes_def)
    moreover have "f' = f + sum_list (failed_sizes (upsert_calls ?es))"
      using a(5) Inr by (simp add: failed_sizes_def)
    ultimately show ?thesis by blast
  qed
qed

text \<open>
  \<open>upsert_documents\<close> with a batch size other than zero: it returns a report, and the new
  events are the embedding calls of the first loop followed by the store calls of the
  second.
\<close>

lemma upsert_documents_events:
  assumes bs: "bs \<noteq> 0"
  shows "\<exists>r es vs. upsert_documents svc docs bs h = (Inr r, h @ es)
     \<and> fst (build_vectors svc docs [] h) = vs
     \<and> map fst (embedding_calls es) = map content (filter nonblank docs)
     \<and> map vector_values vs = embedded_values (embedding_calls es)
     \<and> map fst (upsert_calls es)
         = map (\<lambda>i. py_slice vs i (i + bs)) (range_from 0 (int (length vs)) bs)
     \<and> upserted r = sum_list (stored_sizes (upsert_calls es))
     \<and> failed r = sum_list (failed_sizes (upsert_calls es))
     \<and> total r = int (length vs)"
proof -
  obtain vs h1 where bv: "build_vectors svc docs [] h = (vs, h1)" by (cases "build_vectors svc docs [] h")
  from build_vectors_events [OF bv] obtain es1 where
    a: "h1 = h @ es1" "map fst (embedding_calls es1) = map content (filter nonblank docs)"
       "upsert_calls es1 = []" "map vector_values vs = embedded_values (embedding_calls es1)"
    by auto
  let ?is = "range_from 0 (int (length vs)) bs"
  obtain u f h2 where ub: "upsert_batches svc vs bs ?is (0, 0) h1 = ((u, f), h2)"
    by (metis surj_pair)
  from upsert_batches_events [OF ub] obtain es2 where
    b: "h2 = h1 @ es2" "embedding_calls es2 = []"
       "map fst (upsert_calls es2) = map (\<lambda>i. py_slice vs i (i + bs)) ?is"
       "u = sum_list (stored_sizes (upsert_calls es2))"
       "f = sum_list (failed_sizes (upsert_calls es2))"
    by auto
  let ?r = "\<lparr>upserted = u, failed = f, total = int (length vs)\<rparr>"
  have "upsert_documents svc docs bs h = (Inr ?r, h @ (es1 @ es2))"
    using bv ub bs a(1) b(1) by (simp add: upsert_documents_def py_range_def)
  moreover have "map fst (embedding_calls (es1 @ es2)) = map content (filter nonblank docs)"
    using a(2) b(2) by (simp add: embedding_calls_append)
  moreover have "map vector_values vs = embedded_values (embedding_calls (es1 @ es2))"
    using a(4) b(2) by (simp add: embedding_calls_append)
  moreover have "map fst (upsert_calls (es1 @ es2)) = map (\<lambda>i. py_slice vs i (i + bs)) ?is"
    using a(3) b(3) by (simp add: upsert_calls_append)
  moreover have "upserted ?r = sum_list (stored_sizes (upsert_calls (es1 @ es2)))"
    using a(3) b(4) by (simp add: upsert_calls_append)
  moreover have "failed ?r = sum_list (failed_sizes (upsert_calls (es1 @ es2)))"
    using a(3) b(5) by (simp add: upsert_calls_append)
  moreover have "total ?r = int (length vs)" by simp
  moreover have "fst (build_vectors svc docs [] h) = vs" using bv by simp
  ultimately show ?thesis by blast
qed

lemma concat_windows:
  "concat (map (\<lambda>k. take b (drop (k * b) xs)) [0..<m]) = take (m * b) xs"
proof (induction m)
  case 0
  then show ?case by simp
next
  case (Suc m)
  have "take (m * b) xs @ take b (drop (m * b) xs) = take (m * b + b) xs"
    by (simp add: take_add)
  then show ?case using Suc by (simp add: add.commute)
qed

lemma windows_cover:
  assumes d: "0 < d"
  shows "length xs \<le> nat (- ((- int (length xs)) div d)) * nat d"
proof -
  let ?n = "int (length xs)"
  have "(- ?n) div d * d \<le> - ?n"
    using d by (metis div_mult_mod_eq le_add_same_cancel1 pos_mod_sign)
  then have "?n \<le> - ((- ?n) div d) * d" by simp
  moreover have "0 \<le> - ((- ?n) div d)" using d by (simp add: div_nonpos_pos_le0)
  ultimately have "?n \<le> int (nat (- ((- ?n) div d))) * int (nat d)" using d by simp
  then show ?thesis by (metis of_nat_le_iff of_nat_mult)
qed

lemma windows_of_range:
  assumes d: "0 < d" and S: "0 \<le> S"
  shows "map (\<lambda>i. py_slice xs i (i + S)) (range_from 0 (int (length xs)) d)
         = map (\<lambda>k. take (nat S) (drop (k * nat d) xs))
             [0..<nat (- ((- int (length xs)) div d))]"
proof -
  have r: "range_from 0 (int (length xs)) d =
             map (\<lambda>k. int k * d) [0..<nat (- ((- int (length xs)) div d))]"
    using range_from_pos [OF d, of 0 "int (length xs)"] by simp
  have "\<And>k. py_slice xs (int k * d) (int k * d + S) = take (nat S) (drop (k * nat d) xs)"
  proof -
    fix k
    have "0 \<le> int k * d" using d by simp
    moreover have "nat (int k * d) = k * nat d" using d by (simp add: nat_mult_distrib)
    ultimately show "py_slice xs (int k * d) (int k * d + S) = take (nat S) (drop (k * nat d) xs)"
      using py_slice_window [of "int k * d" S xs] S by simp
  qed
  then show ?thesis by (simp add: r comp_def)
qed

lemma sizes_sum:
  "sum_list (stored_sizes calls) + sum_list (failed_sizes calls)
   = int (length (concat (map fst calls)))"
  by (induction calls) (auto simp: stored_sizes_def failed_sizes_def)

lemma set_py_slice: "set (py_slice xs i j) \<subseteq> set xs"
  unfolding py_slice_def Let_def by (meson in_set_dropD in_set_takeD subsetI)

lemma batches_of_vectors:
  assumes bs: "0 < bs"
    and c: "map fst calls = map (\<lambda>i. py_slice vs i (i + bs)) (range_from 0 (int (length vs)) bs)"
  shows "map fst calls = map (\<lambda>k. take (nat bs) (drop (k * nat bs) vs))
                           [0..<nat (- ((- int (length vs)) div bs))]"
    and "concat (map fst calls) = vs"
proof -
  show w: "map fst calls = map (\<lambda>k. take (nat bs) (drop (k * nat bs) vs))
                           [0..<nat (- ((- int (length vs)) div bs))]"
    using c windows_of_range [OF bs, of bs vs] bs by simp
  have "concat (map fst calls) = take (nat (- ((- int (length vs)) div bs)) * nat bs) vs"
    unfolding w by (rule concat_windows)
  then show "concat (map fst calls) = vs"
    using windows_cover [OF bs, of vs] by simp
qed

lemma str_int_digits: "str_int 0 = ''0''" "str_int 3 = ''3''" "str_int 4 = ''4''" "str_int 1 = ''1''"
  by code_simp+

lemma py_strip_examples: "py_strip ''a'' = ''a''" "py_strip ''bad'' = ''bad''" "py_strip '' '' = []"
  "py_strip ''b'' = ''b''" "py_strip ''c'' = ''c''"
  by code_simp+

lemma range_from_examples: "range_from 0 3 2 = [0, 2]" "range_from 0 0 100 = []" "range_from 0 2 100 = [0]"
  by code_simp+

lemma upsert_example_run: "upsert_documents example_svc example_docs 2 []
   = (Inr \<lparr>upserted = 1, failed = 2, total = 3\<rparr>, example_events)"
  by (simp add: upsert_documents_def example_docs_def example_chunk_def example_svc_def
      example_events_def example_vector_def generate_embedding_def generate_id_def
      dict_get_def py_range_def py_slice_def slice_index_def py_strip_examples range_from_examples str_int_digits Let_def)

lemma upsert_example_embedding_failure: "upsert_documents example_svc [example_chunk ''bad'' 1] 100 []
   = (Inr \<lparr>upserted = 0, failed = 0, total = 0\<rparr>,
      [EmbeddingCall ''bad'' (Inl (LibraryError ''rate limit''))])"
  by (simp add: upsert_documents_def example_chunk_def example_svc_def
      generate_embedding_def py_range_def py_strip_examples range_from_examples Let_def)

section \<open>The report of upsert\_documents\<close>

text \<open>
  C9. For every list of chunks and every positive batch size, \<open>upsert_documents\<close> returns
  a report with \<open>upserted + failed = total\<close>, where \<open>total\<close> is the number of vectors
  built: one for each chunk with non-blank content whose embedding call returned.
\<close>

theorem upsert_report_adds_up:
  assumes bs: "0 < bs"
  shows "\<exists>r es. upsert_documents svc docs bs h = (Inr r, h @ es)
     \<and> upserted r + failed r = total r
     \<and> total r = int (length (fst (build_vectors svc docs [] h)))
     \<and> total r = int (length (embedded_values (embedding_calls es)))
     \<and> map fst (embedding_calls es) = map content (filter nonblank docs)"
proof -
  from bs have "bs \<noteq> 0" by simp
  from upsert_documents_events [OF this, of svc docs h] obtain r es vs where
    a: "upsert_documents svc docs bs h = (Inr r, h @ es)"
       "fst (build_vectors svc docs [] h) = vs"
       "map fst (embedding_calls es) = map content (filter nonblank docs)"
       "map vector_values vs = embedded_values (embedding_calls es)"
       "map fst (upsert_calls es)
         = map (\<lambda>i. py_slice vs i (i + bs)) (range_from 0 (int (length vs)) bs)"
       "upserted r = sum_list (stored_sizes (upsert_calls es))"
       "failed r = sum_list (failed_sizes (upsert_calls es))"
       "total r = int (length vs)"
    by blast
  have "concat (map fst (upsert_calls es)) = vs"
    using batches_of_vectors(2) [OF bs a(5)] .
  then have "upserted r + failed r = total r"
    using sizes_sum [of "upsert_calls es"] a(6,7,8) by simp
  moreover have "length vs = length (embedded_values (embedding_calls es))"
    using a(4) by (metis length_map)
  ultimately show ?thesis using a by auto
qed

theorem upsert_report_adds_up_witness:
  "(0::int) < 2
   \<and> upsert_documents example_svc example_docs 2 []
       = (Inr \<lparr>upserted = 1, failed = 2, total = 3\<rparr>, example_events)
   \<and> upserted \<lparr>upserted = 1, failed = 2, total = 3\<rparr>
         + failed \<lparr>upserted = 1, failed = 2, total = 3\<rparr>
       = total \<lparr>upserted = 1, failed = 2, total = 3\<rparr>
   \<and> total \<lparr>upserted = 1, failed = 2, total = 3\<rparr>
       = int (length (fst (build_vectors example_svc example_docs [] [])))
   \<and> total \<lparr>upserted = 1, failed = 2, total = 3\<rparr>
       = int (length (embedded_values (embedding_calls example_events)))
   \<and> map fst (embedding_calls example_events)
       = map content (filter nonblank example_docs)"
proof -
  obtain r es where
    a: "upsert_documents example_svc example_docs 2 [] = (Inr r, [] @ es)"
       "upserted r + failed r = total r"
       "total r = int (length (fst (build_vectors example_svc example_docs [] [])))"
       "total r = int (length (embedded_values (embedding_calls es)))"
       "map fst (embedding_calls es) = map content (filter nonblank example_docs)"
    using upsert_report_adds_up [of 2 example_svc example_docs "[]"] by auto
  have "r = \<lparr>upserted = 1, failed = 2, total = 3\<rparr>" "es = example_events"
    using a(1) upsert_example_run by simp_all
  then show ?thesis using a upsert_example_run by simp
qed

text \<open>
  C6. For a positive batch size the store is called once for each consecutive slice of
  \<open>batch_size\<close> vectors, whatever the outcome of the other calls, so every vector built
  goes out in exactly one batch; \<open>upserted\<close> is the sum of the sizes of the batches whose
  call returned and \<open>failed\<close> the sum of the sizes of the batches whose call raised.
\<close>

theorem upsert_batches_isolated:
  assumes bs: "0 < bs"
  shows "\<exists>r es. upsert_documents svc docs bs h = (Inr r, h @ es)
     \<and> map fst (upsert_calls es)
         = map (\<lambda>k. take (nat bs) (drop (k * nat bs) (fst (build_vectors svc docs [] h))))
             [0..<nat (- ((- int (length (fst (build_vectors svc docs [] h)))) div bs))]
     \<and> concat (map fst (upsert_calls es)) = fst (build_vectors svc docs [] h)
     \<and> upserted r = sum_list (stored_sizes (upsert_calls es))
     \<and> failed r = sum_list (failed_sizes (upsert_calls es))"
proof -
  from bs have "bs \<noteq> 0" by simp
  from upsert_documents_events [OF this, of svc docs h] obtain r es vs where
    a: "upsert_documents svc docs bs h = (Inr r, h @ es)"
       "fst (build_vectors svc docs [] h) = vs"
       "map fst (upsert_calls es)
         = map (\<lambda>i. py_slice vs i (i + bs)) (range_from 0 (int (length vs)) bs)"
       "upserted r = sum_list (stored_sizes (upsert_calls es))"
       "failed r = sum_list (failed_sizes (upsert_calls es))"
    by blast
  show ?thesis
    using a(1,4,5) batches_of_vectors [OF bs a(3)] unfolding a(2) by blast
qed

theorem upsert_batches_isolated_witness:
  "(0::int) < 2
   \<and> upsert_documents example_svc example_docs 2 []
       = (Inr \<lparr>upserted = 1, failed = 2, total = 3\<rparr>, example_events)
   \<and> upsert_calls example_events
       = [([example_vector ''a'' 0 ''docs/a.txt_0_90015098'',
            example_vector ''b'' 3 ''docs/a.txt_3_90015098''],
           Inl (LibraryError ''store unavailable'')),
          ([example_vector ''c'' 4 ''docs/a.txt_4_90015098''], Inr ())]
   \<and> concat (map fst (upsert_calls example_events))
       = fst (build_vectors example_svc example_docs [] [])
   \<and> upserted \<lparr>upserted = 1, failed = 2, total = 3\<rparr>
       = sum_list (stored_sizes (upsert_calls example_events))
   \<and> failed \<lparr>upserted = 1, failed = 2, total = 3\<rparr>
       = sum_list (failed_sizes (upsert_calls example_events))"
proof -
  obtain r es where
    a: "upsert_documents example_svc example_docs 2 [] = (Inr r, [] @ es)"
       "concat (map fst (upsert_calls es)) = fst (build_vectors example_svc example_docs [] [])"
       "upserted r = sum_list (stored_sizes (upsert_calls es))"
       "failed r = sum_list (failed_sizes (upsert_calls es))"
    using upsert_batches_isolated [of 2 example_svc example_docs "[]"] by auto
  have e: "r = \<lparr>upserted = 1, failed = 2, total = 3\<rparr>" "es = example_events"
    using a(1) upsert_example_run by simp_all
  have c: "upsert_calls example_events
       = [([example_vector ''a'' 0 ''docs/a.txt_0_90015098'',
            example_vector ''b'' 3 ''docs/a.txt_3_90015098''],
           Inl (LibraryError ''store unavailable'')),
          ([example_vector ''c'' 4 ''docs/a.txt_4_90015098''], Inr ())]"
    by (simp add: example_events_def)
  show ?thesis using a(2,3,4) upsert_example_run c unfolding e by simp
qed

text \<open>
  What the report counts, for a batch size other than zero: every chunk with non-blank
  content gets one embedding call, the vectors built are one for each call that returned,
  and only they are submitted; \<open>total\<close> is the number of calls that returned and \<open>failed\<close>
  the number of vectors in the batches whose store call raised.
\<close>

lemma upsert_report_counts_vectors:
  assumes bs: "bs \<noteq> 0"
  shows "\<exists>r es vs. upsert_documents svc docs bs h = (Inr r, h @ es)
     \<and> map fst (embedding_calls es) = map content (filter nonblank docs)
     \<and> map vector_values vs = embedded_values (embedding_calls es)
     \<and> (\<forall>b\<in>set (map fst (upsert_calls es)). set b \<subseteq> set vs)
     \<and> total r = int (length (embedded_values (embedding_calls es)))
     \<and> failed r = sum_list (failed_sizes (upsert_calls es))"
proof -
  from upsert_documents_events [OF bs, of svc docs h] obtain r es vs where
    a: "upsert_documents svc docs bs h = (Inr r, h @ es)"
       "map fst (embedding_calls es) = map content (filter nonblank docs)"
       "map vector_values vs = embedded_values (embedding_calls es)"
       "map fst (upsert_calls es)
         = map (\<lambda>i. py_slice vs i (i + bs)) (range_from 0 (int (length vs)) bs)"
       "failed r = sum_list (failed_sizes (upsert_calls es))"
       "total r = int (length vs)"
    by blast
  have sub: "\<forall>b\<in>set (map fst (upsert_calls es)). set b \<subseteq> set vs"
  proof
    fix b assume "b \<in> set (map fst (upsert_calls es))"
    then obtain i where "b = py_slice vs i (i + bs)" unfolding a(4) by auto
    then show "set b \<subseteq> set vs" by (simp add: set_py_slice)
  qed
  have "length vs = length (embedded_values (embedding_calls es))"
    using a(3) by (metis length_map)
  then have tot: "total r = int (length (embedded_values (embedding_calls es)))"
    using a(6) by simp
  show ?thesis using a(1,2,3,5) sub tot by blast
qed

text \<open>
  C2. The claim is that a chunk with non-empty content whose embedding call raises is
  counted as failed in the report (in \<open>failed\<close> and in \<open>total\<close>) and left out of the vectors
  submitted. The code at such a chunk: it is left out of the vectors, and the report has
  \<open>failed = 0\<close> and \<open>total = 0\<close>. With an embedding service that always raises, a file of
  two chunks is reported with \<open>success = True\<close>, no vector stored and no vector failed.
\<close>

theorem embedding_failure_not_reported:
  "py_strip (content (example_chunk ''bad'' 1)) \<noteq> []
   \<and> embeddings_create example_svc [] (content (example_chunk ''bad'' 1))
       = Inl (LibraryError ''rate limit'')
   \<and> upsert_documents example_svc [example_chunk ''bad'' 1] 100 []
       = (Inr \<lparr>upserted = 0, failed = 0, total = 0\<rparr>,
          [EmbeddingCall ''bad'' (Inl (LibraryError ''rate limit''))])
   \<and> fst (process_single_file example_fs example_svc_no_embedding
            \<lparr>parser = \<lparr>chunk_size = 3, chunk_overlap = 1\<rparr>\<rparr> ''docs/a.txt'' [])
       = [(''file_path'', PStr ''docs/a.txt''), (''chunks_parsed'', PInt 2),
          (''vectors_upserted'', PInt 0), (''vectors_failed'', PInt 0),
          (''success'', PBool True)]"
proof -
  have "py_strip (content (example_chunk ''bad'' 1)) \<noteq> []"
    by (simp add: example_chunk_def py_strip_examples)
  moreover have "embeddings_create example_svc [] (content (example_chunk ''bad'' 1))
       = Inl (LibraryError ''rate limit'')"
    by (simp add: example_svc_def example_chunk_def)
  moreover have "fst (process_single_file example_fs example_svc_no_embedding
            \<lparr>parser = \<lparr>chunk_size = 3, chunk_overlap = 1\<rparr>\<rparr> ''docs/a.txt'' [])
       = [(''file_path'', PStr ''docs/a.txt''), (''chunks_parsed'', PInt 2),
          (''vectors_upserted'', PInt 0), (''vectors_failed'', PInt 0),
          (''success'', PBool True)]"
    by code_simp
  ultimately show ?thesis using upsert_example_embedding_failure by simp
qed

section \<open>Processing one file\<close>

lemma upsert_documents_returns:
  "bs \<noteq> 0 \<Longrightarrow> \<exists>r es. upsert_documents svc docs bs h = (Inr r, h @ es)"
  using upsert_documents_events [of bs svc docs h] by blast

text \<open>
  C10. When parsing returns, the upsert returns too and the report has \<open>success = True\<close>
  with the three counts, whatever the counts are; when parsing raises, the report has
  \<open>success = False\<close>, the message of the exception and no counts; and \<open>success = False\<close>
  occurs exactly when the parsing or the upsert raised.
\<close>

theorem process_single_file_report:
  "(\<forall>chunks. parse_document fs (parser self) p = Inr chunks \<longrightarrow>
      (\<exists>r es. upsert_documents svc chunks 100 h = (Inr r, h @ es)
         \<and> process_single_file fs svc self p h
             = ([(''file_path'', PStr p),
                 (''chunks_parsed'', PInt (int (length chunks))),
                 (''vectors_upserted'', PInt (upserted r)),
                 (''vectors_failed'', PInt (failed r)),
                 (''success'', PBool True)], h @ es)))
   \<and> (\<forall>e. parse_document fs (parser self) p = Inl e \<longrightarrow>
        process_single_file fs svc self p h
          = ([(''file_path'', PStr p), (''error'', PStr (str_exc e)),
              (''success'', PBool False)], h))
   \<and> (map_of (fst (process_single_file fs svc self p h)) ''success'' = Some (PBool False)
        \<longleftrightarrow> (\<exists>e. parse_document fs (parser self) p = Inl e)
            \<or> (\<exists>chunks e h'. parse_document fs (parser self) p = Inr chunks
                  \<and> upsert_documents svc chunks 100 h = (Inl e, h')))"
proof (cases "parse_document fs (parser self) p")
  case (Inl e)
  then show ?thesis by (simp add: process_single_file_def)
next
  case (Inr chunks)
  obtain r es where u: "upsert_documents svc chunks 100 h = (Inr r, h @ es)"
    using upsert_documents_returns [of 100 svc chunks h] by auto
  then show ?thesis using Inr by (simp add: process_single_file_def)
qed

text \<open>
  A file that fails to parse, and a file whose two vectors both fail to be stored: the
  second report still has \<open>success = True\<close>.
\<close>

theorem process_single_file_report_witness:
  "parse_document example_fs \<lparr>chunk_size = 3, chunk_overlap = 1\<rparr> ''docs/bad.pdf''
     = Inl (LibraryError ''EOF marker not found'')
   \<and> process_single_file example_fs example_svc_down
        \<lparr>parser = \<lparr>chunk_size = 3, chunk_overlap = 1\<rparr>\<rparr> ''docs/bad.pdf'' []
     = ([(''file_path'', PStr ''docs/bad.pdf''), (''error'', PStr ''EOF marker not found''),
         (''success'', PBool False)], [])
   \<and> parse_document example_fs \<lparr>chunk_size = 3, chunk_overlap = 1\<rparr> ''docs/a.txt''
     = Inr [example_chunk ''one two three'' 0, example_chunk ''three four'' 1]
   \<and> fst (process_single_file example_fs example_svc_down
            \<lparr>parser = \<lparr>chunk_size = 3, chunk_overlap = 1\<rparr>\<rparr> ''docs/a.txt'' [])
     = [(''file_path'', PStr ''docs/a.txt''), (''chunks_parsed'', PInt 2),
        (''vectors_upserted'', PInt 0), (''vectors_failed'', PInt 2),
        (''success'', PBool True)]"
proof -
  let ?p = "\<lparr>chunk_size = 3, chunk_overlap = 1\<rparr>"
  let ?self = "\<lparr>parser = ?p\<rparr>"
  let ?cs = "[example_chunk ''one two three'' 0, example_chunk ''three four'' 1]"
  have bad: "parse_document example_fs (parser ?self) ''docs/bad.pdf''
               = Inl (LibraryError ''EOF marker not found'')"
    by code_simp
  have good: "parse_document example_fs (parser ?self) ''docs/a.txt'' = Inr ?cs"
    by code_simp
  note t = process_single_file_report [of example_fs ?self]
  have f: "process_single_file example_fs example_svc_down ?self ''docs/bad.pdf'' []
     = ([(''file_path'', PStr ''docs/bad.pdf''), (''error'', PStr ''EOF marker not found''),
         (''success'', PBool False)], [])"
    using t [of "''docs/bad.pdf''" example_svc_down "[]"] bad by simp
  obtain r es where
    u: "upsert_documents example_svc_down ?cs 100 [] = (Inr r, [] @ es)" and
    s: "process_single_file example_fs example_svc_down ?self ''docs/a.txt'' []
             = ([(''file_path'', PStr ''docs/a.txt''),
                 (''chunks_parsed'', PInt (int (length ?cs))),
                 (''vectors_upserted'', PInt (upserted r)),
                 (''vectors_failed'', PInt (failed r)),
                 (''success'', PBool True)], [] @ es)"
    using t [of "''docs/a.txt''" example_svc_down "[]"] good by auto
  have "fst (upsert_documents example_svc_down ?cs 100 [])
          = Inr \<lparr>upserted = 0, failed = 2, total = 2\<rparr>"
    by code_simp
  then have "r = \<lparr>upserted = 0, failed = 2, total = 2\<rparr>" using u by simp
  then have "fst (process_single_file example_fs example_svc_down ?self ''docs/a.txt'' [])
     = [(''file_path'', PStr ''docs/a.txt''), (''chunks_parsed'', PInt 2),
        (''vectors_upserted'', PInt 0), (''vectors_failed'', PInt 2),
        (''success'', PBool True)]"
    using s by simp
  then show ?thesis using bad good f by simp
qed

end
